theory Spec2Isabelle
  imports Complex_Main "HOL-Library.Char_ord" "HOL-Library.List_Lexorder"
begin

section \<open>Errors and the TensorArray\<close>

text \<open>
  Every Python exception and every TensorFlow run-time failure of the modelled code is a value
  of \<open>error\<close>; a fallible operation returns \<open>error + 'a\<close> with \<open>Inl\<close> the failure.
\<close>

datatype error =
  AssertionError
  | IndexError
  | KeyError
  | LayerNotFound
  | Exception
  | ValueError
  | InvalidArgumentError
  | RecursionError
  | AttributeError

definition bind_err :: "error + 'a \<Rightarrow> ('a \<Rightarrow> error + 'b) \<Rightarrow> error + 'b" where
  "bind_err m f = (case m of Inl e \<Rightarrow> Inl e | Inr x \<Rightarrow> f x)"

text \<open>A Python \<open>assert\<close>, and the lookup \<open>d[k]\<close> in a dict, an association list with
  distinct keys.\<close>

definition assert :: "bool \<Rightarrow> error + unit" where
  "assert b = (if b then Inr () else Inl AssertionError)"

definition lookup :: "(string \<times> 'a) list \<Rightarrow> string \<Rightarrow> error + 'a" where
  "lookup d k = (case map_of d k of None \<Rightarrow> Inl KeyError | Some v \<Rightarrow> Inr v)"

text \<open>
  \<open>tf.TensorArray\<close>: a sequence of slots, each written at most once. A write beyond the
  current size grows the array when \<open>dynamic_size\<close> is set and fails otherwise; reading or
  stacking an unwritten slot fails.
\<close>

record 'a tensor_array =
  slots :: "'a option list"
  dynamic_size :: bool

definition TensorArray :: "nat \<Rightarrow> bool \<Rightarrow> 'a tensor_array" where
  "TensorArray n dyn = \<lparr>slots = replicate n None, dynamic_size = dyn\<rparr>"

definition ta_size :: "'a tensor_array \<Rightarrow> nat" where
  "ta_size ta = length (slots ta)"

definition ta_write :: "nat \<Rightarrow> 'a \<Rightarrow> 'a tensor_array \<Rightarrow> error + 'a tensor_array" where
  "ta_write i v ta =
     (if i < length (slots ta) then
        (case slots ta ! i of
           Some w \<Rightarrow> Inl InvalidArgumentError
         | None \<Rightarrow> Inr (ta\<lparr>slots := (slots ta)[i := Some v]\<rparr>))
      else if dynamic_size ta then
        Inr (ta\<lparr>slots := slots ta @ replicate (i - length (slots ta)) None @ [Some v]\<rparr>)
      else Inl InvalidArgumentError)"

definition ta_read :: "nat \<Rightarrow> 'a tensor_array \<Rightarrow> error + 'a" where
  "ta_read i ta =
     (if i < length (slots ta) then
        (case slots ta ! i of Some v \<Rightarrow> Inr v | None \<Rightarrow> Inl InvalidArgumentError)
      else Inl InvalidArgumentError)"

definition ta_unstack :: "'a list \<Rightarrow> 'a tensor_array" where
  "ta_unstack xs = \<lparr>slots = map Some xs, dynamic_size = False\<rparr>"

definition ta_stack :: "'a tensor_array \<Rightarrow> error + 'a list" where
  "ta_stack ta =
     (if list_all (\<lambda>s. s \<noteq> None) (slots ta) then Inr (map the (slots ta))
      else Inl InvalidArgumentError)"

section \<open>The bounded iteration driver of the subnetwork unit\<close>

text \<open>
  \<open>RecLayer._get_output_subnet_unit\<close>, the loop. The network built for one step
  (\<open>cell.get_next_loop_vars\<close>, which calls \<open>cell._construct\<close>) is the result of the
  parameter \<open>cell_step\<close>: the next loop variables of the cell, the placeholder of the
  \<open>end\<close> layer, and the values \<open>out.get()\<close> of the outputs to accumulate, read after
  \<open>filter_seqs(seq_filter_cond)\<close> has been applied to the search choices.
\<close>

record ('nv, 'o) step_net =
  next_net_vars :: 'nv
  end_placeholder :: "bool list"
  out_get :: "bool list option \<Rightarrow> string \<Rightarrow> 'o"

record ('nv, 'x, 'y, 'o) loop_env =
  max_seq_len :: nat
  have_known_seq_len :: bool
  seq_len :: "nat list option"
  x_ta :: "'x tensor_array option"
  y_ta :: "'y tensor_array option"
  outputs_to_accumulate :: "string list"
  collected_choices :: "string list"
  batch_dim :: nat
  output_beam_size :: nat
  out_batch_dim :: nat
  init_net_vars :: 'nv
  cell_step :: "nat \<Rightarrow> 'nv \<Rightarrow> 'x option \<Rightarrow> 'y option \<Rightarrow> ('nv, 'o) step_net"

record ('nv, 'o) loop_vars =
  lv_i :: nat
  net_vars :: 'nv
  acc_tas :: "'o tensor_array list"
  seq_len_info :: "(bool list \<times> nat list) option"

definition read_opt :: "'a tensor_array option \<Rightarrow> nat \<Rightarrow> error + 'a option" where
  "read_opt ta i =
     (case ta of None \<Rightarrow> Inr None
      | Some t \<Rightarrow> bind_err (ta_read i t) (\<lambda>v. Inr (Some v)))"

text \<open>The first statement of \<open>body\<close>: \<open>cell.get_next_loop_vars(net_vars, data=x_ta.read(i) if x_ta
  else None, classes=y_ta.read(i) if y_ta else None, i=i)\<close>, which leaves the network of this
  step in \<open>cell.net\<close>.\<close>

definition get_next_loop_vars_step ::
  "('nv, 'x, 'y, 'o) loop_env \<Rightarrow> ('nv, 'o) loop_vars \<Rightarrow> error + ('nv, 'o) step_net" where
  "get_next_loop_vars_step env lv =
     bind_err (read_opt (x_ta env) (lv_i lv)) (\<lambda>data.
     bind_err (read_opt (y_ta env) (lv_i lv)) (\<lambda>classes.
     Inr (cell_step env (lv_i lv) (net_vars lv) data classes)))"

text \<open>\<open>tf.logical_or\<close> and the \<open>dyn_seq_len += tf.where(end_flag, 0, 1)\<close> of the body, elementwise
  on vectors of one shape.\<close>

definition logical_or :: "bool list \<Rightarrow> bool list \<Rightarrow> error + bool list" where
  "logical_or a b =
     (if length a = length b then Inr (map (\<lambda>(p, q). p \<or> q) (zip a b))
      else Inl InvalidArgumentError)"

definition add_where :: "nat list \<Rightarrow> bool list \<Rightarrow> error + nat list" where
  "add_where dyn flag =
     (if length dyn = length flag
      then Inr (map (\<lambda>(n, f). n + (if f then 0 else 1)) (zip dyn flag))
      else Inl InvalidArgumentError)"

definition update_seq_len_info ::
  "(bool list \<times> nat list) option \<Rightarrow> bool list \<Rightarrow> error + (bool list \<times> nat list) option" where
  "update_seq_len_info info end_out =
     (case info of
        None \<Rightarrow> Inr None
      | Some (end_flag, dyn_seq_len) \<Rightarrow>
          bind_err (logical_or end_flag end_out) (\<lambda>end_flag'.
          bind_err (add_where dyn_seq_len end_flag') (\<lambda>dyn_seq_len'.
          Inr (Some (end_flag', dyn_seq_len')))))"

text \<open>
  The loop counter \<open>i\<close> is compared by \<open>tf.less\<close> with \<open>max_seq_len\<close> and with the sequence
  lengths as \<open>tf.int32\<close> tensors:
  \<open>int32 n\<close> is the number \<open>n\<close> read as a 32-bit signed integer, which wraps around at
  \<open>2 ^ 31\<close>.
\<close>

definition int32 :: "nat \<Rightarrow> int" where
  "int32 n = (int n + 2 ^ 31) mod 2 ^ 32 - 2 ^ 31"

definition seq_filter_cond ::
  "('nv, 'x, 'y, 'o) loop_env \<Rightarrow> nat \<Rightarrow> (bool list \<times> nat list) option \<Rightarrow> error + bool list option" where
  "seq_filter_cond env i info =
     (if collected_choices env = [] then Inr None
      else
        bind_err
          (case seq_len env of
             Some sl \<Rightarrow> Inr (map (\<lambda>l. int32 i < int32 l) sl)
           | None \<Rightarrow>
               (case info of
                  None \<Rightarrow> Inl AssertionError
                | Some (end_flag, dyn) \<Rightarrow> Inr (map Not end_flag)))
          (\<lambda>c. if length c = batch_dim env * output_beam_size env then Inr (Some c)
                else Inl InvalidArgumentError))"

text \<open>\<open>[acc_ta.write(i, out.get()) for (acc_ta, out) in zip(acc_tas, outputs_to_accumulate)]\<close>\<close>

fun write_all ::
  "nat \<Rightarrow> (string \<Rightarrow> 'o) \<Rightarrow> ('o tensor_array \<times> string) list \<Rightarrow> error + 'o tensor_array list" where
  "write_all i get [] = Inr []"
| "write_all i get ((ta, out) # rest) =
     bind_err (ta_write i (get out) ta) (\<lambda>ta'.
     bind_err (write_all i get rest) (\<lambda>tas'. Inr (ta' # tas')))"

definition body ::
  "('nv, 'x, 'y, 'o) loop_env \<Rightarrow> ('nv, 'o) loop_vars \<Rightarrow> error + ('nv, 'o) loop_vars" where
  "body env lv =
     bind_err (get_next_loop_vars_step env lv) (\<lambda>net.
     bind_err (update_seq_len_info (seq_len_info lv) (end_placeholder net)) (\<lambda>info.
     bind_err (seq_filter_cond env (lv_i lv) info) (\<lambda>filt.
     if length (acc_tas lv) \<noteq> length (outputs_to_accumulate env) then Inl AssertionError
     else
       bind_err
         (write_all (lv_i lv) (out_get net filt) (zip (acc_tas lv) (outputs_to_accumulate env)))
         (\<lambda>tas.
            Inr \<lparr>lv_i = lv_i lv + 1, net_vars = next_net_vars net, acc_tas = tas,
                 seq_len_info = info\<rparr>))))"

definition cond :: "('nv, 'x, 'y, 'o) loop_env \<Rightarrow> ('nv, 'o) loop_vars \<Rightarrow> bool" where
  "cond env lv =
     (let res = int32 (lv_i lv) < int32 (max_seq_len env) in
      case seq_len_info lv of
        None \<Rightarrow> res
      | Some (end_flag, dyn) \<Rightarrow> res \<and> list_ex (\<lambda>b. b) (map Not end_flag))"

function while_loop ::
  "('nv, 'x, 'y, 'o) loop_env \<Rightarrow> ('nv, 'o) loop_vars \<Rightarrow> error + ('nv, 'o) loop_vars" where
  "while_loop env lv =
     (if cond env lv then
        (case body env lv of Inl e \<Rightarrow> Inl e | Inr lv' \<Rightarrow> while_loop env lv')
      else Inr lv)"
  by pat_completeness auto
termination
proof (relation "measure (\<lambda>(env, lv). nat (int32 (max_seq_len env) - int32 (lv_i lv)))")
  show "wf (measure (\<lambda>(env, lv). nat (int32 (max_seq_len env) - int32 (lv_i lv))))" by simp
next
  fix env :: "('nv, 'x, 'y, 'o) loop_env" and lv lv' :: "('nv, 'o) loop_vars"
  assume c: "cond env lv" and b: "body env lv = Inr lv'"
  define x where "x = (int (lv_i lv) + 2 ^ 31) mod 2 ^ 32"
  from c have lt: "int32 (lv_i lv) < int32 (max_seq_len env)"
    by (auto simp: cond_def Let_def split: option.splits)
  have "int32 (max_seq_len env) < 2 ^ 31" by (simp add: int32_def)
  with lt have x: "x + 1 < 2 ^ 32" by (simp add: int32_def x_def)
  have x0: "0 \<le> x" by (simp add: x_def)
  from b have "lv_i lv' = lv_i lv + 1"
    by (auto simp: body_def bind_err_def split: sum.splits if_splits)
  then have "(int (lv_i lv') + 2 ^ 31) mod 2 ^ 32 = (x + 1) mod 2 ^ 32"
    by (simp add: x_def mod_simps add.commute add.left_commute)
  also have "\<dots> = x + 1" using x x0 by simp
  finally have "int32 (lv_i lv') = int32 (lv_i lv) + 1" by (simp add: int32_def x_def)
  with lt show "((env, lv'), (env, lv)) \<in>
      measure (\<lambda>(env, lv). nat (int32 (max_seq_len env) - int32 (lv_i lv)))"
    by simp
qed

declare while_loop.simps [simp del]

definition min_loop_len :: "('nv, 'x, 'y, 'o) loop_env \<Rightarrow> nat" where
  "min_loop_len env = (if have_known_seq_len env then max_seq_len env else 0)"

definition init_loop_vars :: "('nv, 'x, 'y, 'o) loop_env \<Rightarrow> ('nv, 'o) loop_vars" where
  "init_loop_vars env =
     \<lparr>lv_i = 0, net_vars = init_net_vars env,
      acc_tas = map (\<lambda>out. TensorArray (min_loop_len env) True) (outputs_to_accumulate env),
      seq_len_info =
        (if have_known_seq_len env then None
         else Some (replicate (out_batch_dim env) False, replicate (out_batch_dim env) 0))\<rparr>"

text \<open>The loop states at which the body is executed, in order: the trace of \<open>while_loop\<close>.\<close>

function executed ::
  "('nv, 'x, 'y, 'o) loop_env \<Rightarrow> ('nv, 'o) loop_vars \<Rightarrow> ('nv, 'o) loop_vars list" where
  "executed env lv =
     (if cond env lv then
        lv # (case body env lv of Inl e \<Rightarrow> [] | Inr lv' \<Rightarrow> executed env lv')
      else [])"
  by pat_completeness auto
termination
proof (relation "measure (\<lambda>(env, lv). nat (int32 (max_seq_len env) - int32 (lv_i lv)))")
  show "wf (measure (\<lambda>(env, lv). nat (int32 (max_seq_len env) - int32 (lv_i lv))))" by simp
next
  fix env :: "('nv, 'x, 'y, 'o) loop_env" and lv lv' :: "('nv, 'o) loop_vars"
  assume c: "cond env lv" and b: "body env lv = Inr lv'"
  define x where "x = (int (lv_i lv) + 2 ^ 31) mod 2 ^ 32"
  from c have lt: "int32 (lv_i lv) < int32 (max_seq_len env)"
    by (auto simp: cond_def Let_def split: option.splits)
  have "int32 (max_seq_len env) < 2 ^ 31" by (simp add: int32_def)
  with lt have x: "x + 1 < 2 ^ 32" by (simp add: int32_def x_def)
  have x0: "0 \<le> x" by (simp add: x_def)
  from b have "lv_i lv' = lv_i lv + 1"
    by (auto simp: body_def bind_err_def split: sum.splits if_splits)
  then have "(int (lv_i lv') + 2 ^ 31) mod 2 ^ 32 = (x + 1) mod 2 ^ 32"
    by (simp add: x_def mod_simps add.commute add.left_commute)
  also have "\<dots> = x + 1" using x x0 by simp
  finally have "int32 (lv_i lv') = int32 (lv_i lv) + 1" by (simp add: int32_def x_def)
  with lt show "((env, lv'), (env, lv)) \<in>
      measure (\<lambda>(env, lv). nat (int32 (max_seq_len env) - int32 (lv_i lv)))"
    by simp
qed

declare executed.simps [simp del]

text \<open>After the loop: \<open>_, final_net_vars, final_acc_tas = final_loop_vars\<close> when the length was
  known, \<open>_, final_net_vars, final_acc_tas, (_, seq_len) = final_loop_vars\<close> otherwise; the
  result is the \<open>seq_len\<close> stored as \<open>self.output.size_placeholder[0]\<close>.\<close>

definition final_seq_len :: "('nv, 'x, 'y, 'o) loop_env \<Rightarrow> error + nat list option" where
  "final_seq_len env =
     bind_err (while_loop env (init_loop_vars env)) (\<lambda>fin.
     if have_known_seq_len env then Inr (seq_len env)
     else (case seq_len_info fin of
             None \<Rightarrow> Inl Exception
           | Some (end_flag, dyn_seq_len) \<Rightarrow> Inr (Some dyn_seq_len)))"

section \<open>Setting up the loop: the \<open>subnet_base\<close> block\<close>

text \<open>
  The data descriptor \<open>Data\<close> and the template layers of \<open>cell.layer_data_templates\<close>, with the
  fields that \<open>RecLayer._get_output_subnet_unit\<close> reads. A dict is an association list with
  distinct keys, in the dict's iteration order.
\<close>

record data =
  dtype :: string
  dim :: "nat option"
  batch_shape :: "nat option list"
  time_dim_axis :: "nat option"
  sparse :: bool
  size_placeholder :: "(nat \<times> nat list) list"

record template_layer =
  layer_output :: data
  loss :: bool
  search_choices :: "nat option"
  search_beam_size :: "nat option"
  layer_batch_dim :: nat

record ('nv, 'x, 'y, 'o) rec_layer =
  input_data :: "('x list \<times> nat list) option"
  input_search_choices :: "nat option"
  rl_output :: data
  rl_max_seq_len :: "nat option"
  target_data :: "'y list option"
  network_batch_dim :: nat
  eval_flag :: bool
  search_flag :: bool
  cell_layer_data_templates :: "(string \<times> template_layer) list"
  cell_init_loop_vars :: 'nv
  cell_get_next_loop_vars :: "nat \<Rightarrow> 'nv \<Rightarrow> 'x option \<Rightarrow> 'y option \<Rightarrow> ('nv, 'o) step_net"

text \<open>\<open>cell.check_output_template_shape()\<close>\<close>

definition check_output_template_shape :: "('nv, 'x, 'y, 'o) rec_layer \<Rightarrow> error + unit" where
  "check_output_template_shape rl =
     (case map_of (cell_layer_data_templates rl) ''output'' of
        None \<Rightarrow> Inl KeyError
      | Some output_template \<Rightarrow>
          bind_err (assert (dim (layer_output output_template) = dim (rl_output rl))) (\<lambda>_.
          bind_err (assert (time_dim_axis (rl_output rl) = Some 0)) (\<lambda>_.
          bind_err (assert (time_dim_axis (layer_output output_template) = None)) (\<lambda>_.
          assert (batch_shape (layer_output output_template) = tl (batch_shape (rl_output rl)))))))"

text \<open>\<open>TFUtil.check_input_dim(seq_len, axis=0, dim=...)\<close>: a run-time check of the size of the
  first axis.\<close>

definition check_input_dim :: "nat list \<Rightarrow> nat \<Rightarrow> error + nat list" where
  "check_input_dim v n = (if length v = n then Inr v else Inl InvalidArgumentError)"

text \<open>\<open>tf.reduce_max\<close> of a vector of lengths. Of an empty vector it is the least integer, no
  size for the accumulators' TensorArrays, so the model fails there.\<close>

definition reduce_max :: "nat list \<Rightarrow> error + nat" where
  "reduce_max v = (if v = [] then Inl InvalidArgumentError else Inr (fold max v 0))"

text \<open>\<open>TFUtil.tile_transposed(seq_len, axis=0, multiples=beam)\<close>: every entry repeated \<open>beam\<close>
  times, giving the \<open>(batch * beam,)\<close> vector.\<close>

definition tile_transposed :: "nat list \<Rightarrow> nat \<Rightarrow> nat list" where
  "tile_transposed v beam = concat (map (replicate beam) v)"

text \<open>The sequence lengths: from the input, or from \<open>self.output.size_placeholder[0]\<close>, or
  unknown.\<close>

definition get_seq_len :: "('nv, 'x, 'y, 'o) rec_layer \<Rightarrow> error + nat list option" where
  "get_seq_len rl =
     (case input_data rl of
        Some (x, sl) \<Rightarrow> Inr (Some sl)
      | None \<Rightarrow>
          (if size_placeholder (rl_output rl) \<noteq> [] then
             (case map_of (size_placeholder (rl_output rl)) 0 of
                None \<Rightarrow> Inl KeyError
              | Some sl \<Rightarrow> Inr (Some sl))
           else Inr None))"

text \<open>The names of the accumulated outputs: the output layer, then a loss and an error per
  layer with a loss when \<open>eval_flag\<close> is set, then the source beams of every layer with search
  choices when \<open>search_flag\<close> is set.\<close>

definition layer_names_with_losses :: "('nv, 'x, 'y, 'o) rec_layer \<Rightarrow> string list" where
  "layer_names_with_losses rl =
     (if eval_flag rl then map fst (filter (\<lambda>(name, layer). loss layer) (cell_layer_data_templates rl))
      else [])"

definition get_collected_choices :: "('nv, 'x, 'y, 'o) rec_layer \<Rightarrow> string list" where
  "get_collected_choices rl =
     (if search_flag rl
      then map fst (filter (\<lambda>(name, layer). search_choices layer \<noteq> None) (cell_layer_data_templates rl))
      else [])"

definition get_outputs_to_accumulate :: "('nv, 'x, 'y, 'o) rec_layer \<Rightarrow> string list" where
  "get_outputs_to_accumulate rl =
     [''output_output''] @
     concat (map (\<lambda>layer_name. [''loss_'' @ layer_name, ''error_'' @ layer_name])
               (layer_names_with_losses rl)) @
     map (\<lambda>layer_name. ''choice_'' @ layer_name) (get_collected_choices rl)"

text \<open>The assertions on the \<open>end\<close> layer, made when the sequence length is not known.\<close>

definition check_end_template :: "('nv, 'x, 'y, 'o) rec_layer \<Rightarrow> error + template_layer" where
  "check_end_template rl =
     (case map_of (cell_layer_data_templates rl) ''end'' of
        None \<Rightarrow> Inl AssertionError
      | Some end_template \<Rightarrow>
          bind_err (assert (dtype (layer_output end_template) = ''bool'')) (\<lambda>_.
          bind_err (assert (batch_shape (layer_output end_template) = [None])) (\<lambda>_.
          bind_err (assert (sparse (layer_output end_template))) (\<lambda>_.
          Inr end_template))))"

text \<open>
  The block \<open>with tf.name_scope("subnet_base")\<close> of \<open>_get_output_subnet_unit\<close> and the initial
  loop variables' parameters: everything the loop needs, or the error that ends the
  construction. The checks are made in the order of the source text; those that TensorFlow
  makes when the graph runs (\<open>check_input_dim\<close>, \<open>tf.assert_equal\<close> on the target length)
  apply only when the sequence lengths are known.
\<close>

definition subnet_base ::
  "('nv, 'x, 'y, 'o) rec_layer \<Rightarrow> error + ('nv, 'x, 'y, 'o) loop_env" where
  "subnet_base rl =
     bind_err (check_output_template_shape rl) (\<lambda>_.
     bind_err (get_seq_len rl) (\<lambda>seq_len0.
     bind_err
       (case seq_len0 of
          Some sl \<Rightarrow>
            bind_err (check_input_dim sl
                        (network_batch_dim rl *
                           (case input_search_choices rl of None \<Rightarrow> 1
                            | Some b \<Rightarrow> if b = 0 then 1 else b))) (\<lambda>sl'.
            bind_err (reduce_max sl') (\<lambda>m. Inr (Some sl', m, True)))
        | None \<Rightarrow>
            bind_err (assert (rl_max_seq_len rl \<noteq> None \<and> rl_max_seq_len rl \<noteq> Some 0)) (\<lambda>_.
            Inr (None, the (rl_max_seq_len rl), False)))
       (\<lambda>(seq_len1, max_len, known).
     bind_err
       (case target_data rl of
          None \<Rightarrow> Inr None
        | Some y \<Rightarrow>
            if seq_len1 \<noteq> None \<and> max_len \<noteq> length y then Inl InvalidArgumentError
            else Inr (Some (ta_unstack y)))
       (\<lambda>y_ta0.
     let choices = get_collected_choices rl in
     bind_err
       (if choices \<noteq> [] then
          (case map_of (cell_layer_data_templates rl) ''output'' of
             None \<Rightarrow> Inl KeyError
           | Some t \<Rightarrow>
               (case search_beam_size t of
                  None \<Rightarrow> Inl AssertionError
                | Some beam \<Rightarrow> Inr (Some beam, map_option (\<lambda>sl. tile_transposed sl beam) seq_len1)))
        else Inr (None, seq_len1))
       (\<lambda>(beam, seq_len2).
     bind_err
       (if \<not> known then bind_err (check_end_template rl) (\<lambda>t. Inr (layer_batch_dim t))
        else Inr 0)
       (\<lambda>end_batch_dim.
     Inr \<lparr>max_seq_len = max_len, have_known_seq_len = known, seq_len = seq_len2,
          x_ta = map_option (\<lambda>(x, sl). ta_unstack x) (input_data rl), y_ta = y_ta0,
          outputs_to_accumulate = get_outputs_to_accumulate rl,
          collected_choices = choices, batch_dim = network_batch_dim rl,
          output_beam_size = (case beam of None \<Rightarrow> 0 | Some b \<Rightarrow> b),
          out_batch_dim = end_batch_dim,
          init_net_vars = cell_init_loop_vars rl,
          cell_step = cell_get_next_loop_vars rl\<rparr>))))))"

text \<open>The loop as \<open>_get_output_subnet_unit\<close> runs it: \<open>tf.while_loop(cond, body, init_loop_vars)\<close>
  on what \<open>subnet_base\<close> prepared.\<close>

definition run_subnet_loop ::
  "('nv, 'x, 'y, 'o) rec_layer \<Rightarrow> error + ('nv, 'o) loop_vars" where
  "run_subnet_loop rl = bind_err (subnet_base rl) (\<lambda>env. while_loop env (init_loop_vars env))"

section \<open>The accumulated loss of the subnetwork\<close>









section \<open>The loop variables of the cell\<close>

text \<open>
  \<open>_SubnetworkRecCell\<close>: the templates by layer name with the dependencies recorded for each,
  the set \<open>prev_layers_needed\<close> (a list without repetition), and the two dicts that
  \<open>get_init_loop_vars\<close> stores in the cell.
\<close>

datatype layer_ref = SubLayer string | BaseLayer string

record template =
  dependencies :: "layer_ref list"
  initialized :: bool

record cell =
  layer_data_templates :: "(string \<times> template) list"
  prev_layers_needed :: "string list"











section \<open>Moving layers out of the loop\<close>

text \<open>
  \<open>_SubnetworkRecCell.move_outside_loop\<close>. A template layer is identified by its name; a
  dependency is a template of this cell or a layer of the parent network.
  \<open>get_dep_layers\<close> of a template layer gives its recorded dependencies sorted by name.
\<close>

fun ref_name :: "layer_ref \<Rightarrow> string" where
  "ref_name (SubLayer n) = n"
| "ref_name (BaseLayer n) = n"

definition get_dep_layers :: "cell \<Rightarrow> string \<Rightarrow> layer_ref list" where
  "get_dep_layers c layer =
     (case map_of (layer_data_templates c) layer of
        None \<Rightarrow> []
      | Some t \<Rightarrow> sort_key ref_name (dependencies t))"

record mol_state =
  layers_in_loop :: "string list"
  input_layers_moved_out :: "string list"
  output_layers_moved_out :: "string list"
  needed_outputs :: "string list"

text \<open>\<open>list.remove(x)\<close>: removes the first occurrence, raises \<open>ValueError\<close> when there is none.\<close>

definition list_remove :: "'a \<Rightarrow> 'a list \<Rightarrow> error + 'a list" where
  "list_remove x xs = (if x \<in> set xs then Inr (remove1 x xs) else Inl ValueError)"

definition output_can_move_out :: "cell \<Rightarrow> mol_state \<Rightarrow> string \<Rightarrow> bool" where
  "output_can_move_out c st layer \<longleftrightarrow>
     (if layer \<in> set (sort (prev_layers_needed c)) then False
      else list_all (\<lambda>other_layer. SubLayer layer \<notin> set (get_dep_layers c other_layer))
             (layers_in_loop st))"

definition find_output_layer_to_move_out :: "cell \<Rightarrow> mol_state \<Rightarrow> string option" where
  "find_output_layer_to_move_out c st =
     find (\<lambda>layer. layer \<in> set (needed_outputs st) \<and> output_can_move_out c st layer)
       (layers_in_loop st)"

definition output_move_out :: "mol_state \<Rightarrow> string \<Rightarrow> error + mol_state" where
  "output_move_out st layer =
     bind_err (list_remove layer (needed_outputs st)) (\<lambda>needed.
     bind_err (list_remove layer (layers_in_loop st)) (\<lambda>in_loop.
     Inr (st\<lparr>needed_outputs := needed, layers_in_loop := in_loop,
             output_layers_moved_out := output_layers_moved_out st @ [layer]\<rparr>)))"

definition input_can_move_out :: "cell \<Rightarrow> mol_state \<Rightarrow> string \<Rightarrow> bool" where
  "input_can_move_out c st layer \<longleftrightarrow>
     list_all (\<lambda>other_layer. SubLayer other_layer \<notin> set (get_dep_layers c layer))
       (layers_in_loop st)"

definition find_input_layer_to_move_out :: "cell \<Rightarrow> mol_state \<Rightarrow> string option" where
  "find_input_layer_to_move_out c st = find (input_can_move_out c st) (layers_in_loop st)"

definition input_move_out :: "mol_state \<Rightarrow> string \<Rightarrow> error + mol_state" where
  "input_move_out st layer =
     bind_err
       (if layer \<in> set (needed_outputs st) then list_remove layer (needed_outputs st)
        else Inr (needed_outputs st)) (\<lambda>needed.
     bind_err (list_remove layer (layers_in_loop st)) (\<lambda>in_loop.
     Inr (st\<lparr>needed_outputs := needed, layers_in_loop := in_loop,
             input_layers_moved_out := input_layers_moved_out st @ [layer]\<rparr>)))"

text \<open>The two halves of one pass of \<open>while True\<close>: the layer found, if any, and the state after
  moving it.\<close>

definition output_pass :: "cell \<Rightarrow> mol_state \<Rightarrow> error + (string option \<times> mol_state)" where
  "output_pass c st =
     (case find_output_layer_to_move_out c st of
        None \<Rightarrow> Inr (None, st)
      | Some output_layer \<Rightarrow>
          bind_err (output_move_out st output_layer) (\<lambda>st'. Inr (Some output_layer, st')))"

definition input_pass :: "cell \<Rightarrow> mol_state \<Rightarrow> error + (string option \<times> mol_state)" where
  "input_pass c st =
     (case find_input_layer_to_move_out c st of
        None \<Rightarrow> Inr (None, st)
      | Some input_layer \<Rightarrow>
          bind_err (input_move_out st input_layer) (\<lambda>st'. Inr (Some input_layer, st')))"

text \<open>One pass: the state after it, and whether the loop goes on (it breaks when neither a
  layer for the output side nor one for the input side was found).\<close>

definition move_pass :: "cell \<Rightarrow> mol_state \<Rightarrow> error + (mol_state \<times> bool)" where
  "move_pass c st =
     bind_err (output_pass c st) (\<lambda>(output_layer, st1).
     bind_err (input_pass c st1) (\<lambda>(input_layer, st2).
     Inr (st2, \<not> (output_layer = None \<and> input_layer = None))))"

function move_while :: "cell \<Rightarrow> mol_state \<Rightarrow> error + mol_state" where
  "move_while c st =
     (case move_pass c st of
        Inl e \<Rightarrow> Inl e
      | Inr (st', again) \<Rightarrow> if again then move_while c st' else Inr st')"
  by pat_completeness auto
termination
proof (relation "measure (\<lambda>(c, st). length (layers_in_loop st))")
  show "wf (measure (\<lambda>(c, st). length (layers_in_loop st)))" by simp
next
  fix c :: cell and st st' :: mol_state and x :: "mol_state \<times> bool" and again :: bool
  assume mp: "move_pass c st = Inr x" and x: "(st', again) = x" and again: again
  have rm: "length ys < length xs" if "list_remove l xs = Inr ys" for l :: string and xs ys
  proof -
    from that have "l \<in> set xs" and "ys = remove1 l xs"
      by (auto simp: list_remove_def split: if_splits)
    moreover from this have "0 < length xs" by (cases xs) auto
    ultimately show ?thesis by (simp add: length_remove1)
  qed
  from mp x obtain ol il st1 where
    op: "output_pass c st = Inr (ol, st1)" and ip: "input_pass c st1 = Inr (il, st')"
    and ag: "again = (\<not> (ol = None \<and> il = None))"
    by (auto simp: move_pass_def bind_err_def split: sum.splits prod.splits)
  have o_le: "length (layers_in_loop st1) \<le> length (layers_in_loop st)"
    "ol \<noteq> None \<Longrightarrow> length (layers_in_loop st1) < length (layers_in_loop st)"
    using op
    by (auto simp: output_pass_def output_move_out_def bind_err_def
        split: option.splits sum.splits dest!: rm)
  have i_le: "length (layers_in_loop st') \<le> length (layers_in_loop st1)"
    "il \<noteq> None \<Longrightarrow> length (layers_in_loop st') < length (layers_in_loop st1)"
    using ip
    by (auto simp: input_pass_def input_move_out_def bind_err_def
        split: option.splits sum.splits if_splits dest!: rm)
  from again ag o_le i_le have "length (layers_in_loop st') < length (layers_in_loop st)"
    by (cases "ol = None") auto
  then show "((c, st'), (c, st)) \<in> measure (\<lambda>(c, st). length (layers_in_loop st))" by simp
qed

declare move_while.simps [simp del]

text \<open>The lists before the loop, and \<open>move_outside_loop\<close>: the lists after it, which the
  source then logs.\<close>

definition mol_init :: "cell \<Rightarrow> mol_state" where
  "mol_init c =
     \<lparr>layers_in_loop = sort (map fst (layer_data_templates c)),
      input_layers_moved_out = [], output_layers_moved_out = [],
      needed_outputs = [''output'']\<rparr>"

definition move_outside_loop :: "cell \<Rightarrow> error + mol_state" where
  "move_outside_loop c = move_while c (mol_init c)"

text \<open>The moves of the loop in order, each with the state in which the layer was found: the
  trace of \<open>move_while\<close>.\<close>

datatype move = OutputMove string mol_state | InputMove string mol_state

definition pass_moves :: "cell \<Rightarrow> mol_state \<Rightarrow> move list" where
  "pass_moves c st =
     (case output_pass c st of
        Inl e \<Rightarrow> []
      | Inr (output_layer, st1) \<Rightarrow>
          (case output_layer of None \<Rightarrow> [] | Some l \<Rightarrow> [OutputMove l st]) @
          (case input_pass c st1 of
             Inl e \<Rightarrow> []
           | Inr (input_layer, st2) \<Rightarrow>
               (case input_layer of None \<Rightarrow> [] | Some l \<Rightarrow> [InputMove l st1])))"

function moves :: "cell \<Rightarrow> mol_state \<Rightarrow> move list" where
  "moves c st =
     pass_moves c st @
     (case move_pass c st of
        Inl e \<Rightarrow> []
      | Inr (st', again) \<Rightarrow> if again then moves c st' else [])"
  by pat_completeness auto
termination
proof (relation "measure (\<lambda>(c, st). length (layers_in_loop st))")
  show "wf (measure (\<lambda>(c, st). length (layers_in_loop st)))" by simp
next
  fix c :: cell and st st' :: mol_state and x :: "mol_state \<times> bool" and again :: bool
  assume mp: "move_pass c st = Inr x" and x: "(st', again) = x" and again: again
  have rm: "length ys < length xs" if "list_remove l xs = Inr ys" for l :: string and xs ys
  proof -
    from that have "l \<in> set xs" and "ys = remove1 l xs"
      by (auto simp: list_remove_def split: if_splits)
    moreover from this have "0 < length xs" by (cases xs) auto
    ultimately show ?thesis by (simp add: length_remove1)
  qed
  from mp x obtain ol il st1 where
    op: "output_pass c st = Inr (ol, st1)" and ip: "input_pass c st1 = Inr (il, st')"
    and ag: "again = (\<not> (ol = None \<and> il = None))"
    by (auto simp: move_pass_def bind_err_def split: sum.splits prod.splits)
  have o_le: "length (layers_in_loop st1) \<le> length (layers_in_loop st)"
    "ol \<noteq> None \<Longrightarrow> length (layers_in_loop st1) < length (layers_in_loop st)"
    using op
    by (auto simp: output_pass_def output_move_out_def bind_err_def
        split: option.splits sum.splits dest!: rm)
  have i_le: "length (layers_in_loop st') \<le> length (layers_in_loop st1)"
    "il \<noteq> None \<Longrightarrow> length (layers_in_loop st') < length (layers_in_loop st1)"
    using ip
    by (auto simp: input_pass_def input_move_out_def bind_err_def
        split: option.splits sum.splits if_splits dest!: rm)
  from again ag o_le i_le have "length (layers_in_loop st') < length (layers_in_loop st)"
    by (cases "ol = None") auto
  then show "((c, st'), (c, st)) \<in> measure (\<lambda>(c, st). length (layers_in_loop st))" by simp
qed

declare moves.simps [simp del]

section \<open>Construction of the template graph\<close>

text \<open>
  \<open>_SubnetworkRecCell._construct_template\<close>. The declaration \<open>net_dict\<close> gives for every layer
  name its class and the names of its sources as written (with the prefixes \<open>prev:\<close> and
  \<open>base:\<close>); \<open>parent_layers\<close> are the names of the layers of the parent network;
  \<open>get_out_data_from_opts\<close> says whether the layer class computes an output descriptor for the
  layer (it raises an exception otherwise). The state of
  the construction is the cell (templates and \<open>prev_layers_needed\<close>) and the stack
  \<open>construct_ctx.layers\<close>, its top last.
\<close>

record layer_desc =
  layer_class :: string
  sources :: "string list"

record construct_env =
  net_dict :: "(string \<times> layer_desc) list"
  parent_layers :: "string list"
  get_out_data_from_opts :: "string \<Rightarrow> layer_desc \<Rightarrow> cell \<Rightarrow> bool"

record construct_state =
  cell_of :: cell
  ctx_layers :: "string list"

definition startswith :: "string \<Rightarrow> string \<Rightarrow> bool" where
  "startswith s p \<longleftrightarrow> take (length p) s = p"

text \<open>\<open>dependencies.add(layer)\<close> on the template named \<open>owner\<close>.\<close>

definition add_dependency :: "string \<Rightarrow> layer_ref \<Rightarrow> cell \<Rightarrow> cell" where
  "add_dependency owner r c =
     c\<lparr>layer_data_templates :=
         map (\<lambda>(k, t). if k = owner then (k, t\<lparr>dependencies := List.insert r (dependencies t)\<rparr>)
                        else (k, t))
           (layer_data_templates c)\<rparr>"

text \<open>\<open>construct_ctx.layers[-1].dependencies.add(layer)\<close>: an \<open>IndexError\<close> on the empty stack.\<close>

definition add_to_top :: "layer_ref \<Rightarrow> construct_state \<Rightarrow> error + construct_state" where
  "add_to_top r st =
     (if ctx_layers st = [] then Inl IndexError
      else Inr (st\<lparr>cell_of := add_dependency (last (ctx_layers st)) r (cell_of st)\<rparr>))"

text \<open>\<open>add_templated_layer\<close>: the output descriptor is computed by the layer class, then
  \<open>layer.init\<close> makes the template an initialised one.\<close>

definition add_templated_layer ::
  "construct_env \<Rightarrow> construct_state \<Rightarrow> string \<Rightarrow> layer_desc \<Rightarrow> error + construct_state" where
  "add_templated_layer env st name desc =
     (case map_of (layer_data_templates (cell_of st)) name of
        None \<Rightarrow> Inl KeyError
      | Some layer \<Rightarrow>
          if get_out_data_from_opts env name desc (cell_of st) then
            Inr (st\<lparr>cell_of := (cell_of st)\<lparr>layer_data_templates :=
                   map (\<lambda>(k, t). if k = name then (k, t\<lparr>initialized := True\<rparr>) else (k, t))
                     (layer_data_templates (cell_of st))\<rparr>\<rparr>)
          else Inl Exception)"

text \<open>
  The parts of \<open>get_templated_layer\<close> around its recursive call. First the prefix \<open>prev:\<close> is
  removed and the name recorded in \<open>prev_layers_needed\<close>.
\<close>

definition layer_name :: "string \<Rightarrow> string" where
  "layer_name name0 = (if startswith name0 ''prev:'' then drop 5 name0 else name0)"

definition note_prev :: "string \<Rightarrow> construct_state \<Rightarrow> construct_state" where
  "note_prev name0 st =
     (if startswith name0 ''prev:''
      then st\<lparr>cell_of := (cell_of st)\<lparr>prev_layers_needed :=
                List.insert (drop 5 name0) (prev_layers_needed (cell_of st))\<rparr>\<rparr>
      else st)"

text \<open>The two early returns: a name that already has a template, also one still under
  construction, and a layer of the parent network. \<open>None\<close> when neither applies and a new
  template is made.\<close>

definition existing_layer ::
  "construct_env \<Rightarrow> construct_state \<Rightarrow> string \<Rightarrow> (error + construct_state) option" where
  "existing_layer env st name =
     (if name \<in> set (map fst (layer_data_templates (cell_of st))) then
        Some (add_to_top (SubLayer name) st)
      else if startswith name ''base:'' then
        Some (if drop 5 name \<in> set (parent_layers env)
              then add_to_top (BaseLayer (drop 5 name)) st
              else Inl KeyError)
      else None)"

text \<open>The new template: a dependency of the layer under construction, if there is one, put on
  the stack and into \<open>layer_data_templates\<close> before its sources are resolved.\<close>

definition new_template :: "construct_state \<Rightarrow> string \<Rightarrow> construct_state" where
  "new_template st name =
     (let st2 = (if ctx_layers st \<noteq> []
                 then st\<lparr>cell_of := add_dependency (last (ctx_layers st)) (SubLayer name)
                                         (cell_of st)\<rparr>
                 else st)
      in st2\<lparr>ctx_layers := ctx_layers st2 @ [name],
             cell_of := (cell_of st2)\<lparr>layer_data_templates :=
               layer_data_templates (cell_of st2) @
                 [(name, \<lparr>dependencies = [], initialized = False\<rparr>)]\<rparr>\<rparr>)"

text \<open>After the sources: \<open>add_templated_layer\<close>, then \<open>assert construct_ctx.layers[-1] is layer\<close>
  and \<open>construct_ctx.layers.pop(-1)\<close>.\<close>

definition finish_template ::
  "construct_env \<Rightarrow> construct_state \<Rightarrow> string \<Rightarrow> layer_desc \<Rightarrow> error + construct_state" where
  "finish_template env st name desc =
     bind_err (add_templated_layer env st name desc) (\<lambda>st5.
     if ctx_layers st5 \<noteq> [] \<and> last (ctx_layers st5) = name
     then Inr (st5\<lparr>ctx_layers := butlast (ctx_layers st5)\<rparr>)
     else Inl AssertionError)"

text \<open>
  \<open>get_templated_layer\<close>, and the resolution of the sources of a layer. The first argument
  bounds the depth of the recursion, as Python's recursion limit does.

  Modelled from the spec: \<open>TFNetwork._construct_layer\<close> is not among the sources. By the spec
  it resolves every textual dependency of the layer through \<open>get_layer\<close> and fails when the
  name is not declared; then \<open>add_layer\<close> is called. This is the part of
  \<open>get_templated_layer\<close> from \<open>map_of (net_dict env) name\<close> on, with \<open>construct_sources\<close>.
\<close>

fun get_templated_layer ::
    "nat \<Rightarrow> construct_env \<Rightarrow> construct_state \<Rightarrow> string \<Rightarrow> error + construct_state"
  and construct_sources ::
    "nat \<Rightarrow> construct_env \<Rightarrow> construct_state \<Rightarrow> string list \<Rightarrow> error + construct_state"
where
  "get_templated_layer 0 env st name0 = Inl RecursionError"
| "get_templated_layer (Suc n) env st name0 =
     (case existing_layer env (note_prev name0 st) (layer_name name0) of
        Some r \<Rightarrow> r
      | None \<Rightarrow>
          (case map_of (net_dict env) (layer_name name0) of
             None \<Rightarrow> Inl LayerNotFound
           | Some desc \<Rightarrow>
               (case construct_sources n env
                       (new_template (note_prev name0 st) (layer_name name0)) (sources desc) of
                  Inl e \<Rightarrow> Inl e
                | Inr st4 \<Rightarrow> finish_template env st4 (layer_name name0) desc)))"
| "construct_sources n env st [] = Inr st"
| "construct_sources n env st (src # rest) =
     (case get_templated_layer n env st src of
        Inl e \<Rightarrow> Inl e
      | Inr st' \<Rightarrow> construct_sources n env st' rest)"

text \<open>\<open>_construct_template\<close>: from no templates, the template of \<open>output\<close> and, when declared, of
  \<open>end\<close>.\<close>

definition construct_template :: "nat \<Rightarrow> construct_env \<Rightarrow> error + cell" where
  "construct_template fuel env =
     (let st0 = \<lparr>cell_of = \<lparr>layer_data_templates = [], prev_layers_needed = []\<rparr>,
                 ctx_layers = []\<rparr>
      in
        bind_err (get_templated_layer fuel env st0 ''output'') (\<lambda>st1.
        bind_err (assert (''output'' \<in> set (map fst (layer_data_templates (cell_of st1))))) (\<lambda>_.
        bind_err (assert (ctx_layers st1 = [])) (\<lambda>_.
        if ''end'' \<in> set (map fst (net_dict env)) then
          bind_err (get_templated_layer fuel env st1 ''end'') (\<lambda>st2. Inr (cell_of st2))
        else Inr (cell_of st1)))))"

section \<open>The choice layer\<close>

text \<open>
  A tensor is its shape and its entries in row-major order. The TensorFlow operations that
  \<open>ChoiceLayer.__init__\<close> uses are given for the shapes they are used on; they fail on
  others.
\<close>

record 'a tensor =
  shape :: "nat list"
  flat :: "'a list"

definition tf_reshape :: "nat list \<Rightarrow> 'a tensor \<Rightarrow> error + 'a tensor" where
  "tf_reshape new_shape t =
     (if prod_list new_shape = length (flat t) then Inr \<lparr>shape = new_shape, flat = flat t\<rparr>
      else Inl InvalidArgumentError)"

text \<open>\<open>tf.expand_dims(t, axis=-1)\<close>\<close>

definition expand_dims_last :: "'a tensor \<Rightarrow> 'a tensor" where
  "expand_dims_last t = \<lparr>shape = shape t @ [1], flat = flat t\<rparr>"

text \<open>\<open>x += y\<close> where \<open>y\<close> has the shape of \<open>x\<close> with last axis 1: every entry of \<open>y\<close> is added to
  the entries of \<open>x\<close> along the last axis.\<close>

definition add_broadcast_last :: "'a::plus tensor \<Rightarrow> 'a tensor \<Rightarrow> error + 'a tensor" where
  "add_broadcast_last x y =
     (if shape x \<noteq> [] \<and> shape y = butlast (shape x) @ [1] \<and>
         length (flat x) = prod_list (shape x) \<and> length (flat y) = prod_list (shape y)
      then Inr \<lparr>shape = shape x,
                flat = map (\<lambda>n. flat x ! n + flat y ! (n div last (shape x)))
                         [0..<length (flat x)]\<rparr>
      else Inl InvalidArgumentError)"

text \<open>
  \<open>tf.nn.top_k\<close> on one row: the indices of the \<open>k\<close> largest entries, largest first, an
  entry of lower index before an equal one of higher index. It fails when the row has fewer
  than \<open>k\<close> entries.
\<close>

definition top_k_indices :: "nat \<Rightarrow> 'a::linorder list \<Rightarrow> nat list" where
  "top_k_indices k xs = take k (rev (sort_key (\<lambda>i. xs ! i) (rev [0..<length xs])))"

definition rows_of :: "nat \<Rightarrow> nat \<Rightarrow> 'a list \<Rightarrow> 'a list list" where
  "rows_of m n xs = map (\<lambda>b. take n (drop (b * n) xs)) [0..<m]"

definition top_k :: "'a::linorder tensor \<Rightarrow> nat \<Rightarrow> error + ('a tensor \<times> nat tensor)" where
  "top_k t k =
     (case shape t of
        [m, n] \<Rightarrow>
          if k \<le> n \<and> length (flat t) = m * n then
            Inr (\<lparr>shape = [m, k],
                  flat = concat (map (\<lambda>row. map (\<lambda>i. row ! i) (top_k_indices k row))
                                   (rows_of m n (flat t)))\<rparr>,
                 \<lparr>shape = [m, k],
                  flat = concat (map (top_k_indices k) (rows_of m n (flat t)))\<rparr>)
          else Inl InvalidArgumentError
      | _ \<Rightarrow> Inl InvalidArgumentError)"

text \<open>
  \<open>ChoiceLayer.__init__\<close> in search mode (\<open>self.network.search_flag\<close>). \<open>scores_base\<close> are the
  beam scores of the source search choices, if there is such a layer; \<open>scores_in\<close> is the
  placeholder of the source, of shape (batch * beam_in, dim); \<open>tf_log\<close> is \<open>tf.log\<close>. The
  result: the source beams and beam scores set on \<open>search_choices\<close>, and the output.
\<close>

datatype input_type = Prob | LogProb | Regression | OtherInputType string

datatype 'a choice_output = Labels "nat tensor" | SourceOutput "'a tensor"

record 'a choice_result =
  src_beams :: "nat tensor option"
  beam_scores :: "'a tensor option"
  choice_output :: "'a choice_output"

definition choice_layer_search ::
  "('a \<Rightarrow> 'a) \<Rightarrow> nat \<Rightarrow> input_type \<Rightarrow> nat \<Rightarrow> nat \<Rightarrow> ('a::{plus,linorder}) tensor option \<Rightarrow>
   'a tensor \<Rightarrow> error + 'a choice_result" where
  "choice_layer_search tf_log beam_size itype net_batch_dim scores_in_dim src_scores scores_in =
     (if itype = Regression then
        bind_err (assert (beam_size = 1)) (\<lambda>_.
        Inr \<lparr>src_beams = None, beam_scores = None, choice_output = SourceOutput scores_in\<rparr>)
      else
        (case src_scores of
           None \<Rightarrow> Inl AssertionError
         | Some scores_base \<Rightarrow>
             bind_err (assert (length (shape scores_base) = 2)) (\<lambda>_.
             let beam_in = shape scores_base ! 1;
                 scores_base1 = expand_dims_last scores_base in
             bind_err
               (if itype = Prob then Inr (scores_in\<lparr>flat := map tf_log (flat scores_in)\<rparr>)
                else if itype = LogProb then Inr scores_in
                else Inl Exception) (\<lambda>scores_in1.
             bind_err (tf_reshape [net_batch_dim, beam_in, scores_in_dim] scores_in1) (\<lambda>scores_in2.
             bind_err (add_broadcast_last scores_in2 scores_base1) (\<lambda>scores_in3.
             bind_err (tf_reshape [net_batch_dim, beam_in * scores_in_dim] scores_in3)
               (\<lambda>scores_in_flat.
             bind_err (top_k scores_in_flat beam_size) (\<lambda>(scores, labels).
             let beams = labels\<lparr>flat := map (\<lambda>l. l div scores_in_dim) (flat labels)\<rparr>;
                 labels1 = labels\<lparr>flat := map (\<lambda>l. l mod scores_in_dim) (flat labels)\<rparr> in
             bind_err (tf_reshape [net_batch_dim * beam_size] labels1) (\<lambda>labels2.
             Inr \<lparr>src_beams = Some beams, beam_scores = Some scores,
                  choice_output = Labels labels2\<rparr>)))))))))"

section \<open>The backward resolution of the search choices\<close>

text \<open>
  The layers that the resolution pass at the end of \<open>RecLayer._get_output_subnet_unit\<close> walks
  through: a layer (\<open>LayerBase\<close>) has a name, a network that is \<open>cell.net\<close> or not, and
  \<open>search_choices\<close>, if any, with a beam size and a source layer; the source layer is missing,
  or a \<open>_TemplateLayer\<close> with its flag \<open>is_prev_time_frame\<close>, or again a layer. A layer is
  constructed after its sources, so a chain of source layers is finite.
\<close>

datatype choice_base =
  LayerBase (base_name: string) (in_cell_net: bool) (base_search_choices: "base_choices option")
and base_choices =
  SearchChoices (choices_beam_size: nat) (choices_src_layer: src_choice_layer)
and src_choice_layer =
  NoLayer | TemplateLayer bool | Layer choice_base

text \<open>
  \<open>final_acc_tas_dict\<close>, by the type of its entries: under \<open>"output_output"\<close> the accumulated
  output of the \<open>output\<close> layer, for every step one value of shape (batch * beam, ...), given by
  its rows; under the keys \<open>"choice_<name>"\<close> the accumulated source beams of the choice layers,
  for every step one (batch, beam) matrix of indices, so that the assertion on its rank holds.
  \<open>add_output_to_acc("output")\<close> comes first, so \<open>final_acc_tas[0]\<close> is the array under
  \<open>"output_output"\<close>.
\<close>

record 'a final_acc_tas_dict =
  output_output :: "'a list tensor_array"
  choice_tas :: "(string \<times> nat list list tensor_array) list"

text \<open>Modelled from the spec: \<open>TFUtil.nd_indices\<close> and \<open>TFUtil.expand_dims_unbroadcast\<close> are not
  among the sources. The spec looks up, per example, the entry at the index of the tracked
  hypothesis, starting from the beam indices 0..K-1 of every example: the first pairs every
  index of a (batch, beam) matrix with the number of its row, the second repeats a value
  \<open>n\<close> times along a new first axis.\<close>

definition nd_indices :: "nat list list \<Rightarrow> (nat \<times> nat) list list" where
  "nd_indices indices = map (\<lambda>b. map (\<lambda>k. (b, k)) (indices ! b)) [0..<length indices]"

definition expand_dims_unbroadcast :: "'a \<Rightarrow> nat \<Rightarrow> 'a list" where
  "expand_dims_unbroadcast x n = replicate n x"

text \<open>\<open>tf.gather_nd\<close> of a (batch, beam, ...) value with (batch, beam_out, 2) indices: the
  entries at the given pairs; it fails on an index out of range. Then \<open>tf.reshape\<close> of the rows
  of a value to (batch, beam, ...) and back.\<close>

definition gather_nd :: "'a list list \<Rightarrow> (nat \<times> nat) list list \<Rightarrow> error + 'a list list" where
  "gather_nd params idxs =
     (if list_all (list_all (\<lambda>(b, k). b < length params \<and> k < length (params ! b))) idxs
      then Inr (map (map (\<lambda>(b, k). params ! b ! k)) idxs)
      else Inl InvalidArgumentError)"

definition reshape_batch_beam :: "nat \<Rightarrow> nat \<Rightarrow> 'a list \<Rightarrow> error + 'a list list" where
  "reshape_batch_beam m n rows =
     (if length rows = m * n then Inr (rows_of m n rows) else Inl InvalidArgumentError)"

definition reshape_rows :: "nat \<Rightarrow> 'a list list \<Rightarrow> error + 'a list" where
  "reshape_rows n v =
     (if length (concat v) = n then Inr (concat v) else Inl InvalidArgumentError)"

text \<open>
  \<open>search_resolve_body\<close>, which goes backwards through time. First the part under
  \<open>is_output_choice\<close>: the output of step \<open>i\<close> is read, reshaped to (batch, beam, ...), gathered
  by \<open>idxs_exp\<close>, reshaped back and written to the new array at \<open>i\<close>. Then the inner loop over
  \<open>choice_base\<close>, from the choice layer of the output through the source choice layers of the
  same step: it reads the source beams of \<open>choice_base\<close> at step \<open>i\<close> and gathers them by the
  indices of \<open>choice_beams\<close>; at a source layer of the previous time frame it returns the
  gathered source beams and the new array, otherwise it goes on with the source layer and the
  gathered source beams as \<open>choice_beams\<close>. Python's assertions fail when the graph is
  built and TensorFlow's operations when it runs; the model returns the first failure in the
  order of the program text.
\<close>

definition resolve_output ::
  "'a final_acc_tas_dict \<Rightarrow> nat \<Rightarrow> nat \<Rightarrow> nat \<Rightarrow> (nat \<times> nat) list list \<Rightarrow> 'a list tensor_array \<Rightarrow>
   error + 'a list tensor_array" where
  "resolve_output d n_batch beam i idxs_exp new_acc_output_ta =
     bind_err (ta_read i (output_output d)) (\<lambda>out.
     bind_err (reshape_batch_beam n_batch beam out) (\<lambda>out.
     bind_err (gather_nd out idxs_exp) (\<lambda>out.
     bind_err (reshape_rows (n_batch * beam) out) (\<lambda>out.
     ta_write i out new_acc_output_ta))))"

definition read_src_choice_beams ::
  "'a final_acc_tas_dict \<Rightarrow> nat \<Rightarrow> string \<Rightarrow> (nat \<times> nat) list list \<Rightarrow> error + nat list list" where
  "read_src_choice_beams d i nm idxs_exp =
     bind_err (lookup (choice_tas d) (''choice_'' @ nm)) (\<lambda>ta.
     bind_err (ta_read i ta) (\<lambda>src_choice_beams.
     gather_nd src_choice_beams idxs_exp))"

fun resolve_choices ::
  "'a final_acc_tas_dict \<Rightarrow> nat \<Rightarrow> nat \<Rightarrow> nat \<Rightarrow> choice_base \<Rightarrow> bool \<Rightarrow> nat list list \<Rightarrow>
   'a list tensor_array \<Rightarrow> error + (nat list list \<times> 'a list tensor_array)" where
  "resolve_choices d n_batch beam i (LayerBase nm in_net choices) is_output_choice choice_beams
       new_acc_output_ta =
     bind_err (assert in_net) (\<lambda>_.
     bind_err (read_src_choice_beams d i nm (nd_indices choice_beams)) (\<lambda>src_choice_beams.
     bind_err (if is_output_choice
               then resolve_output d n_batch beam i (nd_indices choice_beams) new_acc_output_ta
               else Inr new_acc_output_ta) (\<lambda>new_acc_output_ta.
     case choices of
       None \<Rightarrow> Inl AssertionError
     | Some (SearchChoices bs NoLayer) \<Rightarrow> Inl AssertionError
     | Some (SearchChoices bs (TemplateLayer prev)) \<Rightarrow>
         bind_err (assert prev) (\<lambda>_. Inr (src_choice_beams, new_acc_output_ta))
     | Some (SearchChoices bs (Layer src_choice_layer)) \<Rightarrow>
         resolve_choices d n_batch beam i src_choice_layer False src_choice_beams
           new_acc_output_ta)))"

definition search_resolve_body ::
  "'a final_acc_tas_dict \<Rightarrow> nat \<Rightarrow> nat \<Rightarrow> choice_base \<Rightarrow> int \<times> nat list list \<times> 'a list tensor_array \<Rightarrow>
   error + (int \<times> nat list list \<times> 'a list tensor_array)" where
  "search_resolve_body d n_batch beam output_choice_base vars =
     (case vars of (i, choice_beams, new_acc_output_ta) \<Rightarrow>
        bind_err
          (resolve_choices d n_batch beam (nat i) output_choice_base True choice_beams
             new_acc_output_ta)
          (\<lambda>(src_choice_beams, new_acc_output_ta).
             Inr (i - 1, src_choice_beams, new_acc_output_ta)))"

text \<open>\<open>tf.while_loop\<close> with the condition \<open>i >= 0\<close> and the body \<open>search_resolve_body\<close>.\<close>

function search_resolve_loop ::
  "'a final_acc_tas_dict \<Rightarrow> nat \<Rightarrow> nat \<Rightarrow> choice_base \<Rightarrow> int \<times> nat list list \<times> 'a list tensor_array \<Rightarrow>
   error + (int \<times> nat list list \<times> 'a list tensor_array)" where
  "search_resolve_loop d n_batch beam output_choice_base vars =
     (if fst vars \<ge> 0 then
        (case search_resolve_body d n_batch beam output_choice_base vars of
           Inl e \<Rightarrow> Inl e
         | Inr vars' \<Rightarrow> search_resolve_loop d n_batch beam output_choice_base vars')
      else Inr vars)"
  by pat_completeness auto
termination
proof (relation "measure (\<lambda>(d, n_batch, beam, output_choice_base, vars). nat (fst vars + 1))")
  show "wf (measure (\<lambda>(d :: 'a final_acc_tas_dict, n_batch :: nat, beam :: nat,
      output_choice_base :: choice_base, vars :: int \<times> nat list list \<times> 'a list tensor_array).
        nat (fst vars + 1)))"
    by simp
next
  fix d :: "'a final_acc_tas_dict" and n_batch beam :: nat and output_choice_base :: choice_base
    and vars vars' :: "int \<times> nat list list \<times> 'a list tensor_array"
  assume c: "0 \<le> fst vars"
    and b: "search_resolve_body d n_batch beam output_choice_base vars = Inr vars'"
  from b have "fst vars' = fst vars - 1"
    by (auto simp: search_resolve_body_def bind_err_def split: sum.splits prod.splits)
  with c show "((d, n_batch, beam, output_choice_base, vars'),
      (d, n_batch, beam, output_choice_base, vars))
    \<in> measure (\<lambda>(d, n_batch, beam, output_choice_base, vars). nat (fst vars + 1))"
    by simp
qed

declare search_resolve_loop.simps [simp del]

text \<open>
  The resolution pass, run when there are collected choices. \<open>output_choice_base\<close> is the
  result of \<open>cell.net.get_search_choices(src=cell.net.layers["output"])\<close>, if it is a layer. The
  walk starts at \<open>final_acc_tas[0].size() - 1\<close> with the beam indices \<open>0..beam-1\<close> for every
  example and a new array of the size of the accumulated one, which replaces the entry under
  \<open>"output_output"\<close> at the end.
\<close>

definition search_resolve ::
  "'a final_acc_tas_dict \<Rightarrow> nat \<Rightarrow> nat \<Rightarrow> choice_base option \<Rightarrow> error + 'a final_acc_tas_dict" where
  "search_resolve d n_batch beam base =
     (case base of
        None \<Rightarrow> Inl AssertionError
      | Some output_choice_base \<Rightarrow>
          (case base_search_choices output_choice_base of
             None \<Rightarrow> Inl AttributeError
           | Some choices \<Rightarrow>
               bind_err (assert (beam = choices_beam_size choices)) (\<lambda>_.
               let initial_beam_choices = expand_dims_unbroadcast [0..<beam] n_batch;
                   new_acc_output_ta = TensorArray (ta_size (output_output d)) False
               in bind_err
                    (search_resolve_loop d n_batch beam output_choice_base
                       (int (ta_size (output_output d)) - 1, initial_beam_choices,
                        new_acc_output_ta))
                    (\<lambda>(i, choice_beams, new_acc_output_ta).
                       Inr (d\<lparr>output_output := new_acc_output_ta\<rparr>)))))"

section \<open>Auxiliary notions for the iteration driver\<close>

definition ta_ok :: "nat \<Rightarrow> nat \<Rightarrow> 'o tensor_array \<Rightarrow> bool" where
  "ta_ok m i ta \<longleftrightarrow>
     dynamic_size ta \<and> length (slots ta) = max m i \<and>
     (\<forall>k<length (slots ta). (slots ta ! k = None) = (i \<le> k))"

definition inputs_cover :: "('nv, 'x, 'y, 'o) loop_env \<Rightarrow> bool" where
  "inputs_cover env \<longleftrightarrow>
     (\<forall>ta. x_ta env = Some ta \<longrightarrow> (\<forall>i<max_seq_len env. \<exists>v. ta_read i ta = Inr v)) \<and>
     (\<forall>ta. y_ta env = Some ta \<longrightarrow> (\<forall>i<max_seq_len env. \<exists>v. ta_read i ta = Inr v)) \<and>
     (collected_choices env \<noteq> [] \<longrightarrow>
        (case seq_len env of
           Some sl \<Rightarrow> length sl = batch_dim env * output_beam_size env
         | None \<Rightarrow> \<not> have_known_seq_len env \<and>
                   out_batch_dim env = batch_dim env * output_beam_size env)) \<and>
     (\<not> have_known_seq_len env \<longrightarrow>
        (\<forall>i nv d c. length (end_placeholder (cell_step env i nv d c)) = out_batch_dim env))"

definition loop_bound :: "('nv, 'x, 'y, 'o) loop_env \<Rightarrow> nat" where
  "loop_bound env = nat (int32 (max_seq_len env))"

definition lv_ok :: "('nv, 'x, 'y, 'o) loop_env \<Rightarrow> ('nv, 'o) loop_vars \<Rightarrow> bool" where
  "lv_ok env lv \<longleftrightarrow>
     lv_i lv \<le> loop_bound env \<and>
     length (acc_tas lv) = length (outputs_to_accumulate env) \<and>
     (\<forall>ta\<in>set (acc_tas lv). ta_ok (min_loop_len env) (lv_i lv) ta) \<and>
     (if have_known_seq_len env then seq_len_info lv = None
      else \<exists>ef d. seq_len_info lv = Some (ef, d) \<and> length ef = out_batch_dim env \<and>
             length d = out_batch_dim env)"

definition written_at ::
  "('nv, 'x, 'y, 'o) loop_env \<Rightarrow> ('nv, 'o) loop_vars \<Rightarrow> ('nv, 'o) loop_vars \<Rightarrow> bool" where
  "written_at env fin s \<longleftrightarrow>
     (\<exists>net info filt.
        get_next_loop_vars_step env s = Inr net \<and>
        update_seq_len_info (seq_len_info s) (end_placeholder net) = Inr info \<and>
        seq_filter_cond env (lv_i s) info = Inr filt \<and>
        (\<forall>j<length (outputs_to_accumulate env).
           slots (acc_tas fin ! j) ! (lv_i s) =
             Some (out_get net filt (outputs_to_accumulate env ! j))))"


definition end_signal :: "('nv, 'x, 'y, 'o) loop_env \<Rightarrow> ('nv, 'o) loop_vars \<Rightarrow> bool list" where
  "end_signal env s =
     (case get_next_loop_vars_step env s of Inr net \<Rightarrow> end_placeholder net | Inl e \<Rightarrow> [])"

definition dyn_env :: "(nat, unit, unit, nat) loop_env" where
  "dyn_env = \<lparr>max_seq_len = 3, have_known_seq_len = False, seq_len = None,
     x_ta = None, y_ta = None, outputs_to_accumulate = [''output_output''],
     collected_choices = [], batch_dim = 1, output_beam_size = 1, out_batch_dim = 1,
     init_net_vars = 0,
     cell_step = (\<lambda>i nv d c. \<lparr>next_net_vars = nv + 10, end_placeholder = [i = 1],
                                out_get = (\<lambda>f out. nv + i)\<rparr>)\<rparr>"

definition capped_env :: "(nat, unit, unit, nat) loop_env" where
  "capped_env = \<lparr>max_seq_len = 2, have_known_seq_len = False, seq_len = None,
     x_ta = None, y_ta = None, outputs_to_accumulate = [''output_output''],
     collected_choices = [], batch_dim = 1, output_beam_size = 1, out_batch_dim = 1,
     init_net_vars = 0,
     cell_step = (\<lambda>i nv d c. \<lparr>next_net_vars = nv + 10, end_placeholder = [False],
                                out_get = (\<lambda>f out. nv + i)\<rparr>)\<rparr>"

definition wrapped_env :: "(nat, unit, unit, nat) loop_env" where
  "wrapped_env = \<lparr>max_seq_len = 2147483648, have_known_seq_len = False, seq_len = None,
     x_ta = None, y_ta = None, outputs_to_accumulate = [''output_output''],
     collected_choices = [], batch_dim = 1, output_beam_size = 1, out_batch_dim = 1,
     init_net_vars = 0,
     cell_step = (\<lambda>i nv d c. \<lparr>next_net_vars = nv + 10, end_placeholder = [False],
                                out_get = (\<lambda>f out. nv + i)\<rparr>)\<rparr>"
section \<open>Example layers for the loop set-up\<close>

definition no_end_layer :: "(nat, unit, unit, nat) rec_layer" where
  "no_end_layer =
     \<lparr>input_data = None, input_search_choices = None,
      rl_output = \<lparr>dtype = ''int32'', dim = Some 5, batch_shape = [None, None],
                    time_dim_axis = Some 0, sparse = True, size_placeholder = []\<rparr>,
      rl_max_seq_len = Some 3, target_data = None, network_batch_dim = 1,
      eval_flag = False, search_flag = False,
      cell_layer_data_templates =
        [(''output'', \<lparr>layer_output = \<lparr>dtype = ''int32'', dim = Some 5, batch_shape = [None],
                          time_dim_axis = None, sparse = True, size_placeholder = []\<rparr>,
                       loss = False, search_choices = None, search_beam_size = None,
                       layer_batch_dim = 1\<rparr>)],
      cell_init_loop_vars = 0,
      cell_get_next_loop_vars =
        (\<lambda>i nv d c. \<lparr>next_net_vars = nv + 10, end_placeholder = [i = 1],
                       out_get = (\<lambda>f out. nv + i)\<rparr>)\<rparr>"

definition with_end_layer :: "(nat, unit, unit, nat) rec_layer" where
  "with_end_layer =
     no_end_layer\<lparr>cell_layer_data_templates :=
        cell_layer_data_templates no_end_layer @
        [(''end'', \<lparr>layer_output = \<lparr>dtype = ''bool'', dim = Some 2, batch_shape = [None],
                          time_dim_axis = None, sparse = True, size_placeholder = []\<rparr>,
                       loss = False, search_choices = None, search_beam_size = None,
                       layer_batch_dim = 1\<rparr>)]\<rparr>"


section \<open>Auxiliary notions for the accumulated loss\<close>










section \<open>Auxiliary notions for the loop variables\<close>

text \<open>The dict \<open>_initial_extra_outputs\<close>: the initial extra outputs of every template layer
  that has some.\<close>

definition init_extra_dict ::
  "cell \<Rightarrow> (string \<Rightarrow> (string \<times> 'v) list) \<Rightarrow> (string \<times> (string \<times> 'v) list) list" where
  "init_extra_dict c init_extra =
     filter (\<lambda>(k, v). v \<noteq> []) (map (\<lambda>k. (k, init_extra k)) (map fst (layer_data_templates c)))"

definition example_cell :: cell where
  "example_cell =
     \<lparr>layer_data_templates =
        [(''output'', \<lparr>dependencies = [SubLayer ''s''], initialized = True\<rparr>),
         (''s'', \<lparr>dependencies = [SubLayer ''s'', SubLayer ''c''], initialized = True\<rparr>),
         (''c'', \<lparr>dependencies = [BaseLayer ''encoder''], initialized = True\<rparr>)],
      prev_layers_needed = [''s'']\<rparr>"





section \<open>Auxiliary notions for moving layers out of the loop\<close>

text \<open>The layers moved to either side in a trace, the state a move was decided in, what the
  source checks before a move, and the partition invariant of the three lists.\<close>

fun output_moved :: "move list \<Rightarrow> string list" where
  "output_moved [] = []"
| "output_moved (OutputMove l s # ms) = l # output_moved ms"
| "output_moved (InputMove l s # ms) = output_moved ms"

fun input_moved :: "move list \<Rightarrow> string list" where
  "input_moved [] = []"
| "input_moved (OutputMove l s # ms) = input_moved ms"
| "input_moved (InputMove l s # ms) = l # input_moved ms"

fun move_allowed :: "cell \<Rightarrow> move \<Rightarrow> bool" where
  "move_allowed c (OutputMove l s) \<longleftrightarrow>
     l \<in> set (layers_in_loop s) \<and> l \<notin> set (prev_layers_needed c) \<and>
     (\<forall>other\<in>set (layers_in_loop s). SubLayer l \<notin> set (get_dep_layers c other))"
| "move_allowed c (InputMove l s) \<longleftrightarrow>
     l \<in> set (layers_in_loop s) \<and>
     (\<forall>other\<in>set (layers_in_loop s). SubLayer other \<notin> set (get_dep_layers c l))"

definition mol_inv :: "string set \<Rightarrow> mol_state \<Rightarrow> bool" where
  "mol_inv A st \<longleftrightarrow>
     distinct (layers_in_loop st @ input_layers_moved_out st @ output_layers_moved_out st) \<and>
     set (layers_in_loop st) \<union> set (input_layers_moved_out st) \<union>
       set (output_layers_moved_out st) = A"

fun move_state :: "move \<Rightarrow> mol_state" where
  "move_state (OutputMove l s) = s"
| "move_state (InputMove l s) = s"

section \<open>Auxiliary notions for the construction of the template graph\<close>

text \<open>The names that have a template, the declared names, a source that resolves (to a
  declared layer, or with the prefix \<open>base:\<close> to a layer of the parent network), a declaration
  all of whose sources resolve, layer classes that always compute an output descriptor, and a
  declaration with a same-step cycle: \<open>output\<close> depends on \<open>a\<close> and \<open>a\<close> on \<open>output\<close>.\<close>

definition cyclic_env :: construct_env where
  "cyclic_env =
     \<lparr>net_dict = [(''output'', \<lparr>layer_class = ''rnn_cell'', sources = [''a'']\<rparr>),
                  (''a'', \<lparr>layer_class = ''rnn_cell'', sources = [''output'']\<rparr>)],
      parent_layers = [],
      get_out_data_from_opts = (\<lambda>name desc c. True)\<rparr>"

definition tmpl :: "construct_state \<Rightarrow> string set" where
  "tmpl st = set (map fst (layer_data_templates (cell_of st)))"

definition keys :: "construct_env \<Rightarrow> string set" where
  "keys env = set (map fst (net_dict env))"

definition resolvable :: "construct_env \<Rightarrow> string \<Rightarrow> bool" where
  "resolvable env src \<longleftrightarrow>
     (if startswith (layer_name src) ''base:''
      then drop 5 (layer_name src) \<in> set (parent_layers env)
      else layer_name src \<in> keys env)"

definition closed_decl :: "construct_env \<Rightarrow> bool" where
  "closed_decl env \<longleftrightarrow>
     (\<forall>k d. map_of (net_dict env) k = Some d \<longrightarrow> (\<forall>src\<in>set (sources d). resolvable env src))"

definition descriptors_ok :: "construct_env \<Rightarrow> bool" where
  "descriptors_ok env \<longleftrightarrow> (\<forall>name desc c. get_out_data_from_opts env name desc c)"

section \<open>Auxiliary notions for the choice layer\<close>

text \<open>The score function applied to the input (\<open>tf.log\<close> for probabilities, nothing for
  log-probabilities); the candidate score of example \<open>b\<close> for the incoming beam slot \<open>j\<close> and
  the value \<open>d\<close>: the score of the value added to the accumulated score of the slot; and the
  candidates of an example flattened over the last two axes, so that the entry of index \<open>i\<close> is
  the candidate of slot \<open>i div D\<close> and value \<open>i mod D\<close>. Then an example with one sequence, two
  incoming slots and three values.\<close>

definition score_fn :: "input_type \<Rightarrow> ('a \<Rightarrow> 'a) \<Rightarrow> 'a \<Rightarrow> 'a" where
  "score_fn itype tf_log = (if itype = Prob then tf_log else (\<lambda>x. x))"

definition candidate ::
  "('a \<Rightarrow> 'a) \<Rightarrow> nat \<Rightarrow> nat \<Rightarrow> 'a tensor \<Rightarrow> 'a tensor \<Rightarrow> nat \<Rightarrow> nat \<Rightarrow> nat \<Rightarrow> 'a::plus" where
  "candidate lg beam_in D scores_in scores_base b j d =
     lg (flat scores_in ! ((b * beam_in + j) * D + d)) + flat scores_base ! (b * beam_in + j)"

definition flat_candidates ::
  "('a \<Rightarrow> 'a) \<Rightarrow> nat \<Rightarrow> nat \<Rightarrow> 'a tensor \<Rightarrow> 'a tensor \<Rightarrow> nat \<Rightarrow> ('a::plus) list" where
  "flat_candidates lg beam_in D scores_in scores_base b =
     map (\<lambda>i. candidate lg beam_in D scores_in scores_base b (i div D) (i mod D))
       [0..<beam_in * D]"

definition example_log :: "int \<Rightarrow> int" where
  "example_log x = x - 1"

definition example_scores_base :: "int tensor" where
  "example_scores_base = \<lparr>shape = [1, 2], flat = [0, - 1]\<rparr>"

definition example_scores_in :: "int tensor" where
  "example_scores_in = \<lparr>shape = [2, 3], flat = [- 3, - 2, - 5, 0, - 4, - 6]\<rparr>"

section \<open>Auxiliary notions for the backward resolution\<close>

text \<open>
  The matrix with \<open>m\<close> rows and \<open>n\<close> columns of a function of the row and the column. Of the
  accumulated values: the output recorded at a step, and the source beams recorded at a step
  for a choice layer. \<open>parent_slot d i base b s\<close> is the beam slot of the previous step from
  which slot \<open>s\<close> of example \<open>b\<close> at step \<open>i\<close> descends: the recorded source beam of the slot,
  followed through the source beams of the source choice layers of the same step.
  \<open>tracked_slot d base t k b h\<close> is the slot at step \<open>t - k\<close> on the lineage of the final
  hypothesis \<open>h\<close> of example \<open>b\<close>: the hypothesis itself at step \<open>t\<close>, and at an earlier step
  the parent slot of the slot tracked at the step after it.
\<close>

definition matrix_of :: "nat \<Rightarrow> nat \<Rightarrow> (nat \<Rightarrow> nat \<Rightarrow> 'a) \<Rightarrow> 'a list list" where
  "matrix_of m n f = map (\<lambda>b. map (f b) [0..<n]) [0..<m]"

definition raw_output :: "'a final_acc_tas_dict \<Rightarrow> nat \<Rightarrow> 'a list" where
  "raw_output d i = (case slots (output_output d) ! i of None \<Rightarrow> [] | Some rows \<Rightarrow> rows)"

definition recorded_beams :: "'a final_acc_tas_dict \<Rightarrow> string \<Rightarrow> nat \<Rightarrow> nat list list" where
  "recorded_beams d nm i =
     (case map_of (choice_tas d) (''choice_'' @ nm) of
        None \<Rightarrow> []
      | Some ta \<Rightarrow> (case slots ta ! i of None \<Rightarrow> [] | Some v \<Rightarrow> v))"

fun parent_slot :: "'a final_acc_tas_dict \<Rightarrow> nat \<Rightarrow> choice_base \<Rightarrow> nat \<Rightarrow> nat \<Rightarrow> nat" where
  "parent_slot d i (LayerBase nm in_net choices) b s =
     (case choices of
        Some (SearchChoices bs (Layer src)) \<Rightarrow> parent_slot d i src b (recorded_beams d nm i ! b ! s)
      | _ \<Rightarrow> recorded_beams d nm i ! b ! s)"

primrec tracked_slot ::
  "'a final_acc_tas_dict \<Rightarrow> choice_base \<Rightarrow> nat \<Rightarrow> nat \<Rightarrow> nat \<Rightarrow> nat \<Rightarrow> nat" where
  "tracked_slot d base t 0 b h = h"
| "tracked_slot d base t (Suc k) b h =
     parent_slot d (t - k) base b (tracked_slot d base t k b h)"

text \<open>
  What the forward loop leaves behind after \<open>n\<close> steps: the output of every step is recorded
  with \<open>m\<close> rows; the source beams of a choice layer are recorded at every step as a matrix
  with \<open>n_batch\<close> rows and \<open>w\<close> columns of indices below \<open>v\<close>; and this for every layer of the chain
  of choice layers of a step, each in the network of the cell, with search choices, with as
  many columns as its beam size and indices below the beam size of its source layer, the last
  one having a source layer of the previous time frame and indices below \<open>beam\<close>.
\<close>

definition output_recorded :: "'a final_acc_tas_dict \<Rightarrow> nat \<Rightarrow> nat \<Rightarrow> bool" where
  "output_recorded d n m =
     (length (slots (output_output d)) = n \<and>
      list_all (\<lambda>s. case s of None \<Rightarrow> False | Some rows \<Rightarrow> length rows = m)
        (slots (output_output d)))"

definition beams_recorded ::
  "'a final_acc_tas_dict \<Rightarrow> nat \<Rightarrow> nat \<Rightarrow> nat \<Rightarrow> nat \<Rightarrow> string \<Rightarrow> bool" where
  "beams_recorded d n n_batch w v nm =
     (case map_of (choice_tas d) (''choice_'' @ nm) of
        None \<Rightarrow> False
      | Some ta \<Rightarrow>
          length (slots ta) = n \<and>
          list_all (\<lambda>s. case s of
                      None \<Rightarrow> False
                    | Some x \<Rightarrow> length x = n_batch \<and>
                        list_all (\<lambda>row. length row = w \<and> list_all (\<lambda>p. p < v) row) x)
            (slots ta))"

definition beam_of :: "choice_base \<Rightarrow> nat" where
  "beam_of base =
     (case base_search_choices base of None \<Rightarrow> 0 | Some choices \<Rightarrow> choices_beam_size choices)"

fun chain_recorded :: "'a final_acc_tas_dict \<Rightarrow> nat \<Rightarrow> nat \<Rightarrow> nat \<Rightarrow> choice_base \<Rightarrow> bool" where
  "chain_recorded d n n_batch beam (LayerBase nm in_net choices) =
     (in_net \<and>
      (case choices of
         None \<Rightarrow> False
       | Some (SearchChoices bs NoLayer) \<Rightarrow> False
       | Some (SearchChoices bs (TemplateLayer prev)) \<Rightarrow>
           prev \<and> beams_recorded d n n_batch bs beam nm
       | Some (SearchChoices bs (Layer src)) \<Rightarrow>
           beams_recorded d n n_batch bs (beam_of src) nm \<and> chain_recorded d n n_batch beam src))"


text \<open>
  The value that claim C2 gives to the final hypothesis \<open>h\<close> of example \<open>b\<close> at step \<open>t - k\<close>, in
  the words of the claim: the parent-slot index recorded at that step for the tracked
  hypothesis re-indexes the accumulated output of that step.
\<close>

definition claimed_output ::
  "'a final_acc_tas_dict \<Rightarrow> choice_base \<Rightarrow> nat \<Rightarrow> nat \<Rightarrow> nat \<Rightarrow> nat \<Rightarrow> nat \<Rightarrow> 'a" where
  "claimed_output d base beam t k b h =
     raw_output d (t - k) !
       (b * beam + parent_slot d (t - k) base b (tracked_slot d base t k b h))"

text \<open>An example with one sequence, a beam of two and two steps: at step 0 the slots hold the
  values 10 and 11 and both descend from the initial slot 0; at step 1 slot 0 holds 20 and
  descends from slot 1, slot 1 holds 21 and descends from slot 0.\<close>

definition two_step_base :: choice_base where
  "two_step_base = LayerBase ''output'' True (Some (SearchChoices 2 (TemplateLayer True)))"

definition two_step_dict :: "nat final_acc_tas_dict" where
  "two_step_dict =
     \<lparr>output_output = \<lparr>slots = [Some [10, 11], Some [20, 21]], dynamic_size = True\<rparr>,
      choice_tas = [(''choice_output'',
                     \<lparr>slots = [Some [[0, 0]], Some [[1, 0]]], dynamic_size = True\<rparr>)]\<rparr>"

section \<open>Basic facts\<close>

lemma bind_err_Inl [simp]: "bind_err (Inl e) f = Inl e"
  by (simp add: bind_err_def)

lemma bind_err_Inr [simp]: "bind_err (Inr x) f = f x"
  by (simp add: bind_err_def)

section \<open>Properties of the iteration driver\<close>

lemma int32_small: "n < 2 ^ 31 \<Longrightarrow> int32 n = int n"
proof -
  assume "n < 2 ^ 31"
  then have "int n < 2 ^ 31" by (metis of_nat_less_iff of_nat_numeral of_nat_power)
  then have "(int n + 2 ^ 31) mod 2 ^ 32 = int n + 2 ^ 31" by simp
  then show ?thesis by (simp add: int32_def)
qed

lemma int32_less: "int32 n < 2 ^ 31"
  by (simp add: int32_def)

lemma int32_le: "int32 n \<le> int n"
proof -
  have "(int n + 2 ^ 31) mod 2 ^ 32 \<le> int n + 2 ^ 31"
    by (rule zmod_le_nonneg_dividend) simp
  then show ?thesis by (simp add: int32_def)
qed

lemma loop_bound_le: "loop_bound env \<le> max_seq_len env"
  using int32_le[of "max_seq_len env"] by (simp add: loop_bound_def)

lemma loop_bound_less: "loop_bound env < 2 ^ 31"
proof -
  have "int (loop_bound env) < 2 ^ 31"
    using int32_less[of "max_seq_len env"] by (simp add: loop_bound_def)
  then show ?thesis by (metis of_nat_less_iff of_nat_numeral of_nat_power)
qed


lemma less_int32_iff:
  assumes "i \<le> loop_bound env"
  shows "int32 i < int32 (max_seq_len env) \<longleftrightarrow> i < loop_bound env"
proof -
  from assms loop_bound_less[of env] have "i < 2 ^ 31" by simp
  then have "int32 i = int i" by (rule int32_small)
  then show ?thesis by (auto simp: loop_bound_def)
qed

lemma ta_write_ok:
  assumes "ta_ok m i ta"
  shows "\<exists>ta'. ta_write i v ta = Inr ta' \<and> ta_ok m (Suc i) ta' \<and> slots ta' ! i = Some v \<and>
           (\<forall>k<i. slots ta' ! k = slots ta ! k)"
proof (cases "i < m")
  case True
  with assms have len: "length (slots ta) = m" and none: "slots ta ! i = None"
    by (auto simp: ta_ok_def)
  from True len none have w: "ta_write i v ta = Inr (ta\<lparr>slots := (slots ta)[i := Some v]\<rparr>)"
    by (simp add: ta_write_def)
  have "ta_ok m (Suc i) (ta\<lparr>slots := (slots ta)[i := Some v]\<rparr>)"
    using assms True len by (auto simp: ta_ok_def nth_list_update max_def)
  with w True len show ?thesis by auto
next
  case False
  with assms have len: "length (slots ta) = i" and dyn: "dynamic_size ta"
    by (auto simp: ta_ok_def max_def)
  from len dyn have w: "ta_write i v ta = Inr (ta\<lparr>slots := slots ta @ [Some v]\<rparr>)"
    by (simp add: ta_write_def)
  have "ta_ok m (Suc i) (ta\<lparr>slots := slots ta @ [Some v]\<rparr>)"
    using assms False len by (auto simp: ta_ok_def nth_append max_def less_Suc_eq)
  with w len show ?thesis by (auto simp: nth_append)
qed

lemma write_all_ok:
  assumes "\<forall>ta\<in>set tas. ta_ok m i ta" and "length tas = length outs"
  shows "\<exists>tas'. write_all i get (zip tas outs) = Inr tas' \<and> length tas' = length tas \<and>
           (\<forall>j<length tas. ta_ok m (Suc i) (tas' ! j) \<and>
              slots (tas' ! j) ! i = Some (get (outs ! j)) \<and>
              (\<forall>k<i. slots (tas' ! j) ! k = slots (tas ! j) ! k))"
  using assms
proof (induction tas arbitrary: outs)
  case Nil
  then show ?case by simp
next
  case (Cons ta tas)
  then obtain out rest where outs: "outs = out # rest" by (cases outs) auto
  from Cons.prems have ok: "ta_ok m i ta" by simp
  from ta_write_ok[OF ok, of "get out"] obtain ta' where
    w: "ta_write i (get out) ta = Inr ta'" and ok': "ta_ok m (Suc i) ta'"
    and sl: "slots ta' ! i = Some (get out)" and old: "\<forall>k<i. slots ta' ! k = slots ta ! k"
    by blast
  from Cons.prems outs have "\<forall>ta\<in>set tas. ta_ok m i ta" "length tas = length rest" by auto
  from Cons.IH[OF this] obtain tas' where
    wa: "write_all i get (zip tas rest) = Inr tas'" and len: "length tas' = length tas"
    and all: "\<forall>j<length tas. ta_ok m (Suc i) (tas' ! j) \<and>
              slots (tas' ! j) ! i = Some (get (rest ! j)) \<and>
              (\<forall>k<i. slots (tas' ! j) ! k = slots (tas ! j) ! k)"
    by blast
  have "write_all i get (zip (ta # tas) outs) = Inr (ta' # tas')"
    using w wa outs by (simp add: bind_err_def)
  moreover have "\<forall>j<length (ta # tas). ta_ok m (Suc i) ((ta' # tas') ! j) \<and>
              slots ((ta' # tas') ! j) ! i = Some (get (outs ! j)) \<and>
              (\<forall>k<i. slots ((ta' # tas') ! j) ! k = slots ((ta # tas) ! j) ! k)"
  proof (intro allI impI)
    fix j assume "j < length (ta # tas)"
    then show "ta_ok m (Suc i) ((ta' # tas') ! j) \<and>
              slots ((ta' # tas') ! j) ! i = Some (get (outs ! j)) \<and>
              (\<forall>k<i. slots ((ta' # tas') ! j) ! k = slots ((ta # tas) ! j) ! k)"
      using ok' sl old all outs by (cases j) auto
  qed
  ultimately show ?case using len by auto
qed

lemma body_ok:
  assumes wf: "inputs_cover env" and ok: "lv_ok env lv" and ltb: "lv_i lv < loop_bound env"
  shows "\<exists>lv' net info filt.
           body env lv = Inr lv' \<and> lv_ok env lv' \<and> lv_i lv' = Suc (lv_i lv) \<and>
           get_next_loop_vars_step env lv = Inr net \<and>
           update_seq_len_info (seq_len_info lv) (end_placeholder net) = Inr info \<and>
           seq_filter_cond env (lv_i lv) info = Inr filt \<and>
           seq_len_info lv' = info \<and> net_vars lv' = next_net_vars net \<and>
           (\<forall>j<length (outputs_to_accumulate env).
              slots (acc_tas lv' ! j) ! (lv_i lv) = Some (out_get net filt (outputs_to_accumulate env ! j)) \<and>
              (\<forall>k<lv_i lv. slots (acc_tas lv' ! j) ! k = slots (acc_tas lv ! j) ! k))"
proof -
  from ltb loop_bound_le[of env] have lt: "lv_i lv < max_seq_len env" by simp
  have rx: "\<exists>d. read_opt (x_ta env) (lv_i lv) = Inr d"
    using wf lt by (cases "x_ta env") (auto simp: inputs_cover_def read_opt_def bind_err_def)
  have ry: "\<exists>d. read_opt (y_ta env) (lv_i lv) = Inr d"
    using wf lt by (cases "y_ta env") (auto simp: inputs_cover_def read_opt_def bind_err_def)
  from rx ry have "\<exists>net. get_next_loop_vars_step env lv = Inr net \<and>
      (\<exists>d c. net = cell_step env (lv_i lv) (net_vars lv) d c)"
    by (fastforce simp: get_next_loop_vars_step_def bind_err_def)
  then obtain net where net: "get_next_loop_vars_step env lv = Inr net"
    and netc: "\<exists>d c. net = cell_step env (lv_i lv) (net_vars lv) d c"
    by blast
  have "\<exists>info. update_seq_len_info (seq_len_info lv) (end_placeholder net) = Inr info \<and>
          (if have_known_seq_len env then info = None
           else \<exists>ef d. info = Some (ef, d) \<and> length ef = out_batch_dim env \<and>
             length d = out_batch_dim env)"
  proof (cases "have_known_seq_len env")
    case True
    with ok show ?thesis by (simp add: lv_ok_def update_seq_len_info_def)
  next
    case False
    with ok obtain ef d where i: "seq_len_info lv = Some (ef, d)"
      and l: "length ef = out_batch_dim env" "length d = out_batch_dim env"
      by (auto simp: lv_ok_def)
    from False wf netc have "length (end_placeholder net) = out_batch_dim env"
      by (auto simp: inputs_cover_def)
    with i l False show ?thesis
      by (simp add: update_seq_len_info_def logical_or_def add_where_def bind_err_def)
  qed
  then obtain info where info: "update_seq_len_info (seq_len_info lv) (end_placeholder net) = Inr info"
    and infok: "if have_known_seq_len env then info = None
           else \<exists>ef d. info = Some (ef, d) \<and> length ef = out_batch_dim env \<and>
             length d = out_batch_dim env"
    by blast
  have "\<exists>filt. seq_filter_cond env (lv_i lv) info = Inr filt"
  proof (cases "collected_choices env = []")
    case True
    then show ?thesis by (simp add: seq_filter_cond_def)
  next
    case False
    show ?thesis
    proof (cases "seq_len env")
      case (Some sl)
      with False wf show ?thesis
        by (simp add: seq_filter_cond_def inputs_cover_def bind_err_def)
    next
      case None
      with False wf have "\<not> have_known_seq_len env"
        "out_batch_dim env = batch_dim env * output_beam_size env"
        by (auto simp: inputs_cover_def)
      with infok None False show ?thesis
        by (auto simp: seq_filter_cond_def bind_err_def)
    qed
  qed
  then obtain filt where filt: "seq_filter_cond env (lv_i lv) info = Inr filt" by blast
  from ok have len: "length (acc_tas lv) = length (outputs_to_accumulate env)"
    and tas: "\<forall>ta\<in>set (acc_tas lv). ta_ok (min_loop_len env) (lv_i lv) ta"
    by (auto simp: lv_ok_def)
  from write_all_ok[OF tas len, of "out_get net filt"] obtain tas' where
    wa: "write_all (lv_i lv) (out_get net filt) (zip (acc_tas lv) (outputs_to_accumulate env)) = Inr tas'"
    and len': "length tas' = length (acc_tas lv)"
    and all: "\<forall>j<length (acc_tas lv). ta_ok (min_loop_len env) (Suc (lv_i lv)) (tas' ! j) \<and>
              slots (tas' ! j) ! (lv_i lv) = Some (out_get net filt (outputs_to_accumulate env ! j)) \<and>
              (\<forall>k<lv_i lv. slots (tas' ! j) ! k = slots (acc_tas lv ! j) ! k)"
    by blast
  define lv' where "lv' = \<lparr>lv_i = lv_i lv + 1, net_vars = next_net_vars net, acc_tas = tas',
                 seq_len_info = info\<rparr>"
  have b: "body env lv = Inr lv'"
    using net info filt len wa by (simp add: body_def bind_err_def lv'_def)
  have "\<forall>ta\<in>set tas'. ta_ok (min_loop_len env) (Suc (lv_i lv)) ta"
    using all len' by (auto simp: in_set_conv_nth)
  then have "lv_ok env lv'"
    using ltb len len' infok by (auto simp: lv_ok_def lv'_def)
  with b net info filt all len show ?thesis
    by (auto simp: lv'_def)
qed

lemma loop_ok:
  "inputs_cover env \<Longrightarrow> lv_ok env lv \<Longrightarrow>
     \<exists>fin. while_loop env lv = Inr fin \<and> lv_ok env fin \<and> \<not> cond env fin \<and>
       map lv_i (executed env lv) = [lv_i lv ..< lv_i fin] \<and> lv_i lv \<le> lv_i fin \<and>
       (\<forall>j<length (outputs_to_accumulate env). \<forall>k<lv_i lv.
          slots (acc_tas fin ! j) ! k = slots (acc_tas lv ! j) ! k) \<and>
       (\<forall>s\<in>set (executed env lv). written_at env fin s)"
proof (induction env lv rule: while_loop.induct)
  case (1 env lv)
  note wf = "1.prems"(1) and ok = "1.prems"(2)
  show ?case
  proof (cases "cond env lv")
    case False
    then have "while_loop env lv = Inr lv" "executed env lv = []"
      by (simp_all add: while_loop.simps[of env lv] executed.simps[of env lv])
    with False ok show ?thesis by simp
  next
    case True
    then have "int32 (lv_i lv) < int32 (max_seq_len env)"
      by (auto simp: cond_def Let_def split: option.splits)
    moreover from ok have "lv_i lv \<le> loop_bound env" by (simp add: lv_ok_def)
    ultimately have lt: "lv_i lv < loop_bound env" by (simp add: less_int32_iff)
    from body_ok[OF wf ok lt] obtain lv' net info filt where
      b: "body env lv = Inr lv'" and ok': "lv_ok env lv'" and i': "lv_i lv' = Suc (lv_i lv)"
      and net: "get_next_loop_vars_step env lv = Inr net"
      and info: "update_seq_len_info (seq_len_info lv) (end_placeholder net) = Inr info"
      and filt: "seq_filter_cond env (lv_i lv) info = Inr filt"
      and sl: "\<forall>j<length (outputs_to_accumulate env).
              slots (acc_tas lv' ! j) ! (lv_i lv) = Some (out_get net filt (outputs_to_accumulate env ! j)) \<and>
              (\<forall>k<lv_i lv. slots (acc_tas lv' ! j) ! k = slots (acc_tas lv ! j) ! k)"
      by blast
    from "1.IH"[OF True b wf ok'] obtain fin where
      w: "while_loop env lv' = Inr fin" and okf: "lv_ok env fin" and nc: "\<not> cond env fin"
      and idx: "map lv_i (executed env lv') = [lv_i lv' ..< lv_i fin]" and le: "lv_i lv' \<le> lv_i fin"
      and old: "\<forall>j<length (outputs_to_accumulate env). \<forall>k<lv_i lv'.
          slots (acc_tas fin ! j) ! k = slots (acc_tas lv' ! j) ! k"
      and wr: "\<forall>s\<in>set (executed env lv'). written_at env fin s"
      by blast
    have w0: "while_loop env lv = Inr fin"
      using True b w by (simp add: while_loop.simps[of env lv])
    have e0: "executed env lv = lv # executed env lv'"
      using True b by (simp add: executed.simps[of env lv])
    have idx0: "map lv_i (executed env lv) = [lv_i lv ..< lv_i fin]"
      using e0 idx i' le by (simp add: upt_conv_Cons)
    have old0: "\<forall>j<length (outputs_to_accumulate env). \<forall>k<lv_i lv.
          slots (acc_tas fin ! j) ! k = slots (acc_tas lv ! j) ! k"
      using old sl i' by simp
    have "written_at env fin lv"
      unfolding written_at_def using net info filt old sl i' by auto
    with wr e0 have wr0: "\<forall>s\<in>set (executed env lv). written_at env fin s" by simp
    from w0 okf nc idx0 le i' old0 wr0 show ?thesis by auto
  qed
qed

lemma init_loop_vars_ok: "lv_ok env (init_loop_vars env)"
  by (auto simp: lv_ok_def init_loop_vars_def ta_ok_def TensorArray_def min_loop_len_def)






lemmas loop_eval =
  cond_def int32_def body_def init_loop_vars_def
  min_loop_len_def TensorArray_def get_next_loop_vars_step_def read_opt_def bind_err_def
  update_seq_len_info_def seq_filter_cond_def ta_write_def logical_or_def add_where_def



lemma cond_iff:
  assumes "max_seq_len env < 2 ^ 31" and "lv_i lv < 2 ^ 31"
  shows "cond env lv \<longleftrightarrow>
     lv_i lv < max_seq_len env \<and>
     (case seq_len_info lv of None \<Rightarrow> True | Some (end_flag, dyn) \<Rightarrow> \<exists>b\<in>set end_flag. \<not> b)"
  using assms by (auto simp: cond_def Let_def list_ex_iff int32_small split: option.splits)

lemma body_index: "body env lv = Inr lv' \<Longrightarrow> lv_i lv' = Suc (lv_i lv)"
  by (auto simp: body_def bind_err_def split: sum.splits if_splits)

lemma step_index_small:
  assumes m: "max_seq_len env < 2 ^ 31" and i: "lv_i lv < 2 ^ 31"
    and c: "cond env lv" and b: "body env lv = Inr lv'"
  shows "lv_i lv' < 2 ^ 31"
proof -
  from c cond_iff[OF m i] have "lv_i lv < max_seq_len env" by simp
  with body_index[OF b] have "lv_i lv' \<le> max_seq_len env" by simp
  with m show ?thesis by simp
qed

lemma executed_cond: "s \<in> set (executed env lv) \<Longrightarrow> cond env s"
proof (induction env lv rule: executed.induct)
  case (1 env lv)
  show ?case
  proof (cases "cond env lv")
    case False
    with "1.prems" show ?thesis by (simp add: executed.simps)
  next
    case True
    show ?thesis
    proof (cases "body env lv")
      case (Inl e)
      with True "1.prems" show ?thesis by (simp add: executed.simps[of env lv])
    next
      case (Inr lv')
      with True "1.prems" have "s = lv \<or> s \<in> set (executed env lv')"
        by (simp add: executed.simps[of env lv])
      with True Inr "1.IH" show ?thesis by auto
    qed
  qed
qed

lemma while_loop_not_cond: "while_loop env lv = Inr fin \<Longrightarrow> \<not> cond env fin"
proof (induction env lv rule: while_loop.induct)
  case (1 env lv)
  show ?case
  proof (cases "cond env lv")
    case False
    with "1.prems" show ?thesis by (simp add: while_loop.simps[of env lv])
  next
    case True
    with "1.prems" obtain lv' where b: "body env lv = Inr lv'" and w: "while_loop env lv' = Inr fin"
      by (auto simp: while_loop.simps[of env lv] split: sum.splits)
    from "1.IH"[OF True b w] show ?thesis .
  qed
qed

lemma while_loop_chain:
  "while_loop env lv = Inr fin \<Longrightarrow>
     (executed env lv @ [fin]) ! 0 = lv \<and>
     (\<forall>k < length (executed env lv).
        body env (executed env lv ! k) = Inr ((executed env lv @ [fin]) ! Suc k))"
proof (induction env lv rule: while_loop.induct)
  case (1 env lv)
  show ?case
  proof (cases "cond env lv")
    case False
    then have "executed env lv = []" by (simp add: executed.simps[of env lv])
    moreover from False "1.prems" have "fin = lv" by (simp add: while_loop.simps[of env lv])
    ultimately show ?thesis by simp
  next
    case True
    with "1.prems" obtain lv' where b: "body env lv = Inr lv'" and w: "while_loop env lv' = Inr fin"
      by (auto simp: while_loop.simps[of env lv] split: sum.splits)
    from "1.IH"[OF True b w]
    have h0: "(executed env lv' @ [fin]) ! 0 = lv'"
      and hk: "\<forall>k < length (executed env lv').
        body env (executed env lv' ! k) = Inr ((executed env lv' @ [fin]) ! Suc k)"
      by auto
    have e: "executed env lv = lv # executed env lv'"
      using True b by (simp add: executed.simps[of env lv])
    show ?thesis
    proof (intro conjI allI impI)
      show "(executed env lv @ [fin]) ! 0 = lv" by (simp add: e)
    next
      fix k assume "k < length (executed env lv)"
      then show "body env (executed env lv ! k) = Inr ((executed env lv @ [fin]) ! Suc k)"
        using h0 hk b by (cases k) (auto simp: e)
    qed
  qed
qed

lemma executed_stop: "\<not> cond env lv \<Longrightarrow> executed env lv = []"
  by (subst executed.simps) simp

lemma while_loop_stop: "\<not> cond env lv \<Longrightarrow> while_loop env lv = Inr lv"
  by (subst while_loop.simps) simp

lemma executed_step:
  "cond env lv \<Longrightarrow> body env lv = Inr lv' \<Longrightarrow> executed env lv = lv # executed env lv'"
  by (subst executed.simps) simp

lemma while_loop_step:
  "cond env lv \<Longrightarrow> body env lv = Inr lv' \<Longrightarrow> while_loop env lv = while_loop env lv'"
  by (subst while_loop.simps) simp

lemma while_loop_fail:
  "cond env lv \<Longrightarrow> body env lv = Inl e \<Longrightarrow> while_loop env lv = Inl e"
  by (subst while_loop.simps) simp

lemma body_info:
  assumes "body env lv = Inr lv'" and "seq_len_info lv = Some (ef, d)"
  shows "length (end_signal env lv) = length ef \<and> length d = length ef \<and>
         seq_len_info lv' =
           Some (map (\<lambda>(p, q). p \<or> q) (zip ef (end_signal env lv)),
                 map (\<lambda>(n, f). n + (if f then 0 else 1))
                   (zip d (map (\<lambda>(p, q). p \<or> q) (zip ef (end_signal env lv)))))"
  using assms
  by (auto simp: body_def bind_err_def end_signal_def update_seq_len_info_def logical_or_def
      add_where_def split: sum.splits if_splits)

lemma dyn_run:
  "while_loop env lv = Inr fin \<Longrightarrow> seq_len_info lv = Some (ef, d) \<Longrightarrow>
   length d = length ef \<Longrightarrow>
   \<exists>eff df. seq_len_info fin = Some (eff, df) \<and> length eff = length ef \<and> length df = length ef \<and>
     (\<forall>b<length ef.
        df ! b = d ! b +
          (if ef ! b then 0
           else length (takeWhile (\<lambda>s. \<not> end_signal env s ! b) (executed env lv))) \<and>
        eff ! b = (ef ! b \<or> (\<exists>s\<in>set (executed env lv). end_signal env s ! b)))"
proof (induction env lv arbitrary: ef d rule: while_loop.induct)
  case (1 env lv)
  show ?case
  proof (cases "cond env lv")
    case False
    then have "fin = lv" "executed env lv = []"
      using "1.prems"(1) by (simp_all add: while_loop_stop executed_stop)
    with "1.prems" show ?thesis by simp
  next
    case True
    with "1.prems"(1) obtain lv' where b: "body env lv = Inr lv'" and w: "while_loop env lv' = Inr fin"
      by (auto simp: while_loop.simps[of env lv] split: sum.splits)
    define e where "e = end_signal env lv"
    define ef' where "ef' = map (\<lambda>(p, q). p \<or> q) (zip ef e)"
    define d' where "d' = map (\<lambda>(n, f). n + (if f then 0 else 1)) (zip d ef')"
    from body_info[OF b "1.prems"(2)] have le: "length e = length ef"
      and i': "seq_len_info lv' = Some (ef', d')"
      by (simp_all add: e_def ef'_def d'_def)
    have lef': "length ef' = length ef" using le by (simp add: ef'_def)
    have ld': "length d' = length ef'" using "1.prems"(3) lef' by (simp add: d'_def)
    from "1.IH"[OF True b w i' ld'] obtain eff df where
      f: "seq_len_info fin = Some (eff, df)" "length eff = length ef'" "length df = length ef'"
      and all: "\<forall>b<length ef'.
        df ! b = d' ! b +
          (if ef' ! b then 0
           else length (takeWhile (\<lambda>s. \<not> end_signal env s ! b) (executed env lv'))) \<and>
        eff ! b = (ef' ! b \<or> (\<exists>s\<in>set (executed env lv'). end_signal env s ! b))"
      by blast
    have e0: "executed env lv = lv # executed env lv'"
      using True b by (simp add: executed.simps[of env lv])
    have "\<forall>b<length ef.
        df ! b = d ! b +
          (if ef ! b then 0
           else length (takeWhile (\<lambda>s. \<not> end_signal env s ! b) (executed env lv))) \<and>
        eff ! b = (ef ! b \<or> (\<exists>s\<in>set (executed env lv). end_signal env s ! b))"
    proof (intro allI impI)
      fix b assume bl: "b < length ef"
      have efb: "ef' ! b = (ef ! b \<or> e ! b)" using bl le by (simp add: ef'_def)
      have db: "d' ! b = d ! b + (if ef' ! b then 0 else 1)"
        using bl lef' "1.prems"(3) by (simp add: d'_def)
      from all bl lef' have
        dfb: "df ! b = d' ! b + (if ef' ! b then 0
           else length (takeWhile (\<lambda>s. \<not> end_signal env s ! b) (executed env lv')))"
        and effb: "eff ! b = (ef' ! b \<or> (\<exists>s\<in>set (executed env lv'). end_signal env s ! b))"
        by auto
      show "df ! b = d ! b +
          (if ef ! b then 0
           else length (takeWhile (\<lambda>s. \<not> end_signal env s ! b) (executed env lv))) \<and>
        eff ! b = (ef ! b \<or> (\<exists>s\<in>set (executed env lv). end_signal env s ! b))"
        using efb db dfb effb by (auto simp: e0 e_def)
    qed
    with f lef' show ?thesis by simp
  qed
qed

lemma single_fire_last:
  "seq_len_info lv = Some (ef, d) \<Longrightarrow> length ef = 1 \<Longrightarrow> length d = 1 \<Longrightarrow>
   k < length (executed env lv) \<Longrightarrow> end_signal env (executed env lv ! k) ! 0 \<Longrightarrow>
   Suc k = length (executed env lv)"
proof (induction env lv arbitrary: ef d k rule: executed.induct)
  case (1 env lv)
  have c: "cond env lv"
  proof (rule ccontr)
    assume "\<not> cond env lv"
    then have "executed env lv = []" by (rule executed_stop)
    with "1.prems"(4) show False by simp
  qed
  show ?case
  proof (cases "body env lv")
    case (Inl e)
    with c have "executed env lv = [lv]" by (subst executed.simps) simp
    with "1.prems"(4) show ?thesis by simp
  next
    case (Inr lv')
    note e0 = executed_step[OF c Inr]
    from body_info[OF Inr "1.prems"(1)] "1.prems"(2,3) obtain ef' d' where
      i': "seq_len_info lv' = Some (ef', d')" and l: "length ef' = 1" "length d' = 1"
      and ef': "ef' = map (\<lambda>(p, q). p \<or> q) (zip ef (end_signal env lv))"
      and le: "length (end_signal env lv) = length ef"
      by auto
    show ?thesis
    proof (cases k)
      case 0
      with "1.prems"(5) e0 have "end_signal env lv ! 0" by simp
      with ef' le "1.prems"(2) have "ef' ! 0" by simp
      moreover from l have "ef' = [ef' ! 0]"
        by (cases ef') auto
      ultimately have "ef' = [True]" by simp
      with i' have "\<not> cond env lv'" by (simp add: cond_def Let_def)
      then have "executed env lv' = []" by (rule executed_stop)
      with e0 0 show ?thesis by simp
    next
      case (Suc k')
      with "1.prems"(4,5) e0 have "k' < length (executed env lv')"
        "end_signal env (executed env lv' ! k') ! 0" by simp_all
      from "1.IH"[OF c Inr i' l this] e0 Suc show ?thesis by simp
    qed
  qed
qed

lemma takeWhile_first:
  assumes "k < length xs" and "\<not> P (xs ! k)" and "\<forall>j<k. P (xs ! j)"
  shows "length (takeWhile P xs) = k"
proof -
  have "takeWhile P xs = take k xs"
    using assms by (intro takeWhile_eq_take_P_nth) auto
  with assms(1) show ?thesis by simp
qed

lemma capped_run:
  "while_loop capped_env (init_loop_vars capped_env) =
     Inr \<lparr>lv_i = 2, net_vars = 20,
          acc_tas = [\<lparr>slots = [Some 0, Some 11], dynamic_size = True\<rparr>],
          seq_len_info = Some ([False], [2])\<rparr>"
  by (simp add: while_loop.simps capped_env_def loop_eval)

lemma capped_executed:
  "map lv_i (executed capped_env (init_loop_vars capped_env)) = [0, 1]"
  by (simp add: executed.simps capped_env_def loop_eval)

lemma dyn_run_example:
  "while_loop dyn_env (init_loop_vars dyn_env) =
     Inr \<lparr>lv_i = 2, net_vars = 20,
          acc_tas = [\<lparr>slots = [Some 0, Some 11], dynamic_size = True\<rparr>],
          seq_len_info = Some ([True], [1])\<rparr>"
  by (simp add: while_loop.simps dyn_env_def loop_eval)

text \<open>
  Claim C3, as amended. When the length is not known in advance, the loop returns and the
  recorded length of example \<open>b\<close> is the number of executed iterations that precede the first
  one whose end signal is set for \<open>b\<close>. So if the signal first fires at the executed step
  \<open>k\<close>, the recorded length is \<open>k\<close>, that step has index \<open>k\<close>, is executed and its outputs are
  written; if the signal never fires in an executed step (the loop stopped at the maximum length
  or because all other examples ended), the recorded length is the number of iterations
  executed. With batch size 1, a step whose end signal fires is the last executed one, so the
  loop makes \<open>k + 1\<close> iterations and records \<open>k\<close>.
\<close>

theorem dyn_seq_len_counts_steps_before_end:
  assumes unk: "\<not> have_known_seq_len env" and wf: "inputs_cover env"
  shows "\<exists>fin eff df.
     while_loop env (init_loop_vars env) = Inr fin \<and>
     seq_len_info fin = Some (eff, df) \<and> final_seq_len env = Inr (Some df) \<and>
     length df = out_batch_dim env \<and>
     (\<forall>b<out_batch_dim env.
        df ! b = length (takeWhile (\<lambda>s. \<not> end_signal env s ! b) (executed env (init_loop_vars env))) \<and>
        (\<forall>k<length (executed env (init_loop_vars env)).
           end_signal env (executed env (init_loop_vars env) ! k) ! b \<and>
           (\<forall>j<k. \<not> end_signal env (executed env (init_loop_vars env) ! j) ! b) \<longrightarrow>
           df ! b = k \<and> lv_i (executed env (init_loop_vars env) ! k) = k \<and>
           written_at env fin (executed env (init_loop_vars env) ! k)) \<and>
        ((\<forall>s\<in>set (executed env (init_loop_vars env)). \<not> end_signal env s ! b) \<longrightarrow>
           df ! b = length (executed env (init_loop_vars env)))) \<and>
     (out_batch_dim env = 1 \<longrightarrow>
        (\<forall>k<length (executed env (init_loop_vars env)).
           end_signal env (executed env (init_loop_vars env) ! k) ! 0 \<longrightarrow>
           length (executed env (init_loop_vars env)) = Suc k \<and> df ! 0 = k))"
proof -
  define es where "es = executed env (init_loop_vars env)"
  define n where "n = out_batch_dim env"
  from loop_ok[OF wf init_loop_vars_ok] obtain fin where
    w: "while_loop env (init_loop_vars env) = Inr fin"
    and idx: "map lv_i es = [lv_i (init_loop_vars env) ..< lv_i fin]"
    and wr: "\<forall>s\<in>set es. written_at env fin s"
    unfolding es_def by blast
  have i0: "seq_len_info (init_loop_vars env) = Some (replicate n False, replicate n 0)"
    using unk by (simp add: init_loop_vars_def n_def)
  from dyn_run[OF w i0] obtain eff df where
    f: "seq_len_info fin = Some (eff, df)" and ldf: "length df = n"
    and all: "\<forall>b<n. df ! b = length (takeWhile (\<lambda>s. \<not> end_signal env s ! b) es)"
    unfolding es_def by auto
  have idxk: "\<forall>k<length es. lv_i (es ! k) = k"
  proof (intro allI impI)
    fix k assume k: "k < length es"
    then have "lv_i (es ! k) = map lv_i es ! k" by simp
    also have "\<dots> = [0 ..< lv_i fin] ! k" using idx by (simp add: init_loop_vars_def)
    also have "\<dots> = k"
    proof -
      from idx have "length es = lv_i fin"
        by (metis diff_zero length_map length_upt init_loop_vars_def loop_vars.select_convs(1))
      with k show ?thesis by simp
    qed
    finally show "lv_i (es ! k) = k" .
  qed
  have first: "\<forall>b<n. \<forall>k<length es.
           end_signal env (es ! k) ! b \<and> (\<forall>j<k. \<not> end_signal env (es ! j) ! b) \<longrightarrow>
           df ! b = k \<and> lv_i (es ! k) = k \<and> written_at env fin (es ! k)"
  proof (intro allI impI)
    fix b k assume b: "b < n" and k: "k < length es"
      and fire: "end_signal env (es ! k) ! b \<and> (\<forall>j<k. \<not> end_signal env (es ! j) ! b)"
    have "length (takeWhile (\<lambda>s. \<not> end_signal env s ! b) es) = k"
      using k fire by (intro takeWhile_first) auto
    with all b have "df ! b = k" by simp
    moreover from idxk k have "lv_i (es ! k) = k" by simp
    moreover from wr k have "written_at env fin (es ! k)" by simp
    ultimately show "df ! b = k \<and> lv_i (es ! k) = k \<and> written_at env fin (es ! k)" by simp
  qed
  have never: "\<forall>b<n. (\<forall>s\<in>set es. \<not> end_signal env s ! b) \<longrightarrow> df ! b = length es"
  proof (intro allI impI)
    fix b assume b: "b < n" and nv: "\<forall>s\<in>set es. \<not> end_signal env s ! b"
    then have tw: "takeWhile (\<lambda>s. \<not> end_signal env s ! b) es = es"
      by (simp add: takeWhile_eq_all_conv)
    from all b have "df ! b = length (takeWhile (\<lambda>s. \<not> end_signal env s ! b) es)"
      by blast
    then show "df ! b = length es" by (simp only: tw)
  qed
  have one: "n = 1 \<longrightarrow> (\<forall>k<length es. end_signal env (es ! k) ! 0 \<longrightarrow>
           length es = Suc k \<and> df ! 0 = k)"
  proof (intro allI impI)
    fix k assume n1: "n = 1" and k: "k < length es" and fire: "end_signal env (es ! k) ! 0"
    have last: "\<And>j. j < length es \<Longrightarrow> end_signal env (es ! j) ! 0 \<Longrightarrow> Suc j = length es"
      using single_fire_last[OF i0, of j env for j] n1 unfolding es_def by simp
    from last[OF k fire] have len: "length es = Suc k" by simp
    have "\<forall>j<k. \<not> end_signal env (es ! j) ! 0"
    proof (intro allI impI notI)
      fix j assume "j < k" and "end_signal env (es ! j) ! 0"
      with k last[of j] len show False by simp
    qed
    with first n1 k fire have "df ! 0 = k" by simp
    with len show "length es = Suc k \<and> df ! 0 = k" by simp
  qed
  have fs: "final_seq_len env = Inr (Some df)"
    using w f unk by (simp add: final_seq_len_def bind_err_def)
  from w f fs ldf all first never one show ?thesis
    unfolding es_def n_def by blast
qed

lemma dyn_executed_example:
  "executed dyn_env (init_loop_vars dyn_env) =
     [\<lparr>lv_i = 0, net_vars = 0, acc_tas = [\<lparr>slots = [], dynamic_size = True\<rparr>],
       seq_len_info = Some ([False], [0])\<rparr>,
      \<lparr>lv_i = 1, net_vars = 10, acc_tas = [\<lparr>slots = [Some 0], dynamic_size = True\<rparr>],
       seq_len_info = Some ([False], [1])\<rparr>]"
  by (simp add: executed.simps dyn_env_def loop_eval)

theorem dyn_seq_len_counts_steps_before_end_witness:
  "\<not> have_known_seq_len dyn_env \<and> inputs_cover dyn_env \<and>
   end_signal dyn_env (executed dyn_env (init_loop_vars dyn_env) ! 1) ! 0 \<and>
   \<not> end_signal dyn_env (executed dyn_env (init_loop_vars dyn_env) ! 0) ! 0 \<and>
   final_seq_len dyn_env = Inr (Some [1]) \<and>
   length (executed dyn_env (init_loop_vars dyn_env)) = 2"
proof -
  have h1: "\<not> have_known_seq_len dyn_env" by (simp add: dyn_env_def)
  have h2: "inputs_cover dyn_env" by (simp add: dyn_env_def inputs_cover_def)
  have b: "out_batch_dim dyn_env = 1" by (simp add: dyn_env_def)
  have e1: "end_signal dyn_env (executed dyn_env (init_loop_vars dyn_env) ! 1) ! 0"
    unfolding dyn_executed_example
    by (simp add: end_signal_def get_next_loop_vars_step_def read_opt_def bind_err_def dyn_env_def)
  have e0: "\<not> end_signal dyn_env (executed dyn_env (init_loop_vars dyn_env) ! 0) ! 0"
    unfolding dyn_executed_example
    by (simp add: end_signal_def get_next_loop_vars_step_def read_opt_def bind_err_def dyn_env_def)
  have k: "1 < length (executed dyn_env (init_loop_vars dyn_env))"
    by (simp add: dyn_executed_example)
  from dyn_seq_len_counts_steps_before_end[OF h1 h2] obtain fin eff df where
    fs: "final_seq_len dyn_env = Inr (Some df)" and ld: "length df = out_batch_dim dyn_env"
    and one: "out_batch_dim dyn_env = 1 \<longrightarrow>
        (\<forall>k<length (executed dyn_env (init_loop_vars dyn_env)).
           end_signal dyn_env (executed dyn_env (init_loop_vars dyn_env) ! k) ! 0 \<longrightarrow>
           length (executed dyn_env (init_loop_vars dyn_env)) = Suc k \<and> df ! 0 = k)"
    by blast
  from one b k e1 have r: "length (executed dyn_env (init_loop_vars dyn_env)) = 2" "df ! 0 = 1"
    by auto
  from ld b r(2) have "df = [1]" by (cases df) auto
  with fs h1 h2 e1 e0 r(1) show ?thesis by simp
qed

text \<open>
  Claim C3 as stated fails where the loop is stopped by the maximum length: with batch size 1,
  maximum length 2 and an end signal that never fires, two iterations are executed and the
  recorded length is 2, which is not one less than the number of iterations.
\<close>

theorem dyn_seq_len_not_one_less_at_max_len:
  "final_seq_len capped_env = Inr (Some [2]) \<and>
   length (executed capped_env (init_loop_vars capped_env)) = 2 \<and>
   final_seq_len capped_env \<noteq>
     Inr (Some [length (executed capped_env (init_loop_vars capped_env)) - 1])"
proof -
  have a: "final_seq_len capped_env = Inr (Some [2])"
    by (simp add: final_seq_len_def capped_run) (simp add: bind_err_def capped_env_def)
  have "length (map lv_i (executed capped_env (init_loop_vars capped_env))) = 2"
    by (simp only: capped_executed) simp
  then have b: "length (executed capped_env (init_loop_vars capped_env)) = 2" by simp
  from a b show ?thesis by simp
qed

lemma executed_index_small:
  "max_seq_len env < 2 ^ 31 \<Longrightarrow> lv_i lv < 2 ^ 31 \<Longrightarrow> s \<in> set (executed env lv) \<Longrightarrow>
   lv_i s < 2 ^ 31"
proof (induction env lv rule: executed.induct)
  case (1 env lv)
  show ?case
  proof (cases "cond env lv")
    case False
    with "1.prems" show ?thesis by (simp add: executed_stop)
  next
    case True
    show ?thesis
    proof (cases "body env lv")
      case (Inl e)
      with True "1.prems" show ?thesis by (simp add: executed.simps[of env lv])
    next
      case (Inr lv')
      with True "1.prems" have "s = lv \<or> s \<in> set (executed env lv')"
        by (simp add: executed_step)
      moreover note "1.IH"[OF True Inr "1.prems"(1) step_index_small[OF "1.prems"(1,2) True Inr]]
      ultimately show ?thesis using "1.prems"(2) by blast
    qed
  qed
qed

lemma while_loop_index_small:
  "max_seq_len env < 2 ^ 31 \<Longrightarrow> lv_i lv < 2 ^ 31 \<Longrightarrow> while_loop env lv = Inr fin \<Longrightarrow>
   lv_i fin < 2 ^ 31"
proof (induction env lv rule: while_loop.induct)
  case (1 env lv)
  show ?case
  proof (cases "cond env lv")
    case False
    with "1.prems" show ?thesis by (simp add: while_loop_stop)
  next
    case True
    with "1.prems"(3) obtain lv' where b: "body env lv = Inr lv'" and w: "while_loop env lv' = Inr fin"
      by (auto simp: while_loop.simps[of env lv] split: sum.splits)
    from "1.IH"[OF True b "1.prems"(1) step_index_small[OF "1.prems"(1,2) True b] w]
    show ?thesis .
  qed
qed

text \<open>
  Claim C5, as amended. For a maximum length and step indices below \<open>2 ^ 31\<close>, the loop condition
  holds exactly when the step index is below the maximum length and either no dynamic end
  signal is carried or some example has not signalled its end. Every state at which the body
  is executed satisfies it, so no body runs at a step index at or beyond the maximum length,
  nor once every end flag is set; a run that returns visits the executed states in order,
  each the body's result on the one before, and stops at the first state where the condition
  fails.
\<close>

theorem loop_continues_exactly_while_cond:
  assumes m: "max_seq_len env < 2 ^ 31" and i: "lv_i lv < 2 ^ 31" and i0: "lv_i lv0 < 2 ^ 31"
  shows "(cond env lv \<longleftrightarrow>
      lv_i lv < max_seq_len env \<and>
      (case seq_len_info lv of None \<Rightarrow> True
       | Some (end_flag, dyn) \<Rightarrow> \<exists>b\<in>set end_flag. \<not> b)) \<and>
   (\<forall>s\<in>set (executed env lv0).
      lv_i s < max_seq_len env \<and>
      (case seq_len_info s of None \<Rightarrow> True
       | Some (end_flag, dyn) \<Rightarrow> \<exists>b\<in>set end_flag. \<not> b)) \<and>
   (\<forall>fin. while_loop env lv0 = Inr fin \<longrightarrow>
      (executed env lv0 @ [fin]) ! 0 = lv0 \<and>
      (\<forall>k<length (executed env lv0).
         body env (executed env lv0 ! k) = Inr ((executed env lv0 @ [fin]) ! Suc k)) \<and>
      \<not> (lv_i fin < max_seq_len env \<and>
         (case seq_len_info fin of None \<Rightarrow> True
          | Some (end_flag, dyn) \<Rightarrow> \<exists>b\<in>set end_flag. \<not> b)))"
proof (intro conjI ballI allI impI)
  show "cond env lv \<longleftrightarrow>
      lv_i lv < max_seq_len env \<and>
      (case seq_len_info lv of None \<Rightarrow> True
       | Some (end_flag, dyn) \<Rightarrow> \<exists>b\<in>set end_flag. \<not> b)"
    by (rule cond_iff[OF m i])
next
  fix s assume s: "s \<in> set (executed env lv0)"
  then have c: "cond env s" by (rule executed_cond)
  note ci = cond_iff[OF m executed_index_small[OF m i0 s]]
  from c ci show "lv_i s < max_seq_len env" by simp
  from c ci show "case seq_len_info s of None \<Rightarrow> True
       | Some (end_flag, dyn) \<Rightarrow> \<exists>b\<in>set end_flag. \<not> b"
    by simp
next
  fix fin assume w: "while_loop env lv0 = Inr fin"
  from while_loop_chain[OF w] show "(executed env lv0 @ [fin]) ! 0 = lv0" by simp
  from while_loop_not_cond[OF w] cond_iff[OF m while_loop_index_small[OF m i0 w]]
  show "\<not> (lv_i fin < max_seq_len env \<and>
         (case seq_len_info fin of None \<Rightarrow> True
          | Some (end_flag, dyn) \<Rightarrow> \<exists>b\<in>set end_flag. \<not> b))"
    by simp
  fix k assume "k < length (executed env lv0)"
  with while_loop_chain[OF w]
  show "body env (executed env lv0 ! k) = Inr ((executed env lv0 @ [fin]) ! Suc k)" by simp
qed

theorem loop_continues_exactly_while_cond_witness:
  "max_seq_len dyn_env < 2 ^ 31 \<and> lv_i (init_loop_vars dyn_env) < 2 ^ 31 \<and>
   executed dyn_env (init_loop_vars dyn_env) ! 1 \<in> set (executed dyn_env (init_loop_vars dyn_env)) \<and>
   lv_i (executed dyn_env (init_loop_vars dyn_env) ! 1) < max_seq_len dyn_env \<and>
   while_loop dyn_env (init_loop_vars dyn_env) =
     Inr \<lparr>lv_i = 2, net_vars = 20,
          acc_tas = [\<lparr>slots = [Some 0, Some 11], dynamic_size = True\<rparr>],
          seq_len_info = Some ([True], [1])\<rparr> \<and>
   \<not> cond dyn_env \<lparr>lv_i = 2, net_vars = 20,
          acc_tas = [\<lparr>slots = [Some 0, Some 11], dynamic_size = True\<rparr>],
          seq_len_info = Some ([True], [1])\<rparr>"
proof -
  let ?fin = "\<lparr>lv_i = 2, net_vars = 20,
          acc_tas = [\<lparr>slots = [Some (0::nat), Some 11], dynamic_size = True\<rparr>],
          seq_len_info = Some ([True], [1::nat])\<rparr>"
  have h1: "max_seq_len dyn_env < 2 ^ 31" by (simp add: dyn_env_def)
  have h2: "lv_i ?fin < 2 ^ 31" by simp
  have h3: "lv_i (init_loop_vars dyn_env) < 2 ^ 31" by (simp add: init_loop_vars_def)
  have m: "executed dyn_env (init_loop_vars dyn_env) ! 1 \<in> set (executed dyn_env (init_loop_vars dyn_env))"
    by (simp add: dyn_executed_example)
  note t = loop_continues_exactly_while_cond[OF h1 h2 h3]
  from t m have "lv_i (executed dyn_env (init_loop_vars dyn_env) ! 1) < max_seq_len dyn_env"
    by blast
  moreover from t dyn_run_example have "\<not> cond dyn_env ?fin" by blast
  ultimately show ?thesis using h1 h3 m dyn_run_example by simp
qed

text \<open>
  Claim C5 as stated fails where the maximum length is not a 32-bit signed integer: the
  comparison of the step index with the maximum length \<open>2 ^ 31\<close> is made on the wrapped value
  \<open>- 2 ^ 31\<close>, so at step index 0, below the maximum length and with no example that has ended,
  the loop does not continue and no step is executed.
\<close>

theorem no_step_at_wrapped_max_len:
  "lv_i (init_loop_vars wrapped_env) < max_seq_len wrapped_env \<and>
   seq_len_info (init_loop_vars wrapped_env) = Some ([False], [0]) \<and>
   \<not> cond wrapped_env (init_loop_vars wrapped_env) \<and>
   executed wrapped_env (init_loop_vars wrapped_env) = [] \<and>
   while_loop wrapped_env (init_loop_vars wrapped_env) = Inr (init_loop_vars wrapped_env)"
proof -
  have c: "\<not> cond wrapped_env (init_loop_vars wrapped_env)"
    by (simp add: cond_def int32_def wrapped_env_def init_loop_vars_def)
  have "lv_i (init_loop_vars wrapped_env) < max_seq_len wrapped_env"
    "seq_len_info (init_loop_vars wrapped_env) = Some ([False], [0])"
    by (simp_all add: wrapped_env_def init_loop_vars_def)
  with c executed_stop[OF c] while_loop_stop[OF c] show ?thesis by simp
qed
section \<open>The loop set-up fails without a proper end layer\<close>

lemma check_end_template_fails:
  assumes "\<not> (\<exists>t. map_of (cell_layer_data_templates rl) ''end'' = Some t \<and>
            dtype (layer_output t) = ''bool'' \<and> batch_shape (layer_output t) = [None] \<and>
            sparse (layer_output t))"
  shows "check_end_template rl = Inl AssertionError"
  using assms
  by (auto simp: check_end_template_def bind_err_def assert_def split: option.splits)

lemma get_seq_len_unknown:
  "input_data rl = None \<Longrightarrow> size_placeholder (rl_output rl) = [] \<Longrightarrow> get_seq_len rl = Inr None"
  by (simp add: get_seq_len_def)

text \<open>
  Claim C9. When the layer has no input (so no input sequence lengths) and no output sizes were
  provided, the set-up of the loop fails unless the subnetwork has an \<open>end\<close> layer whose
  template output has dtype bool, batch shape \<open>(None,)\<close> and is sparse: the block returns an
  error, so does the loop built on it, and no loop environment or output is produced. When the
  output template exists the error is an assertion failure.
\<close>

theorem missing_end_layer_is_fatal:
  assumes "input_data rl = None" and "size_placeholder (rl_output rl) = []"
    and "\<not> (\<exists>t. map_of (cell_layer_data_templates rl) ''end'' = Some t \<and>
            dtype (layer_output t) = ''bool'' \<and> batch_shape (layer_output t) = [None] \<and>
            sparse (layer_output t))"
  shows "\<exists>e. subnet_base rl = Inl e \<and> run_subnet_loop rl = Inl e \<and>
             (map_of (cell_layer_data_templates rl) ''output'' \<noteq> None \<longrightarrow> e = AssertionError)"
proof -
  note sl = get_seq_len_unknown[OF assms(1,2)]
  note ce = check_end_template_fails[OF assms(3)]
  have "\<exists>e. subnet_base rl = Inl e \<and>
             (map_of (cell_layer_data_templates rl) ''output'' \<noteq> None \<longrightarrow> e = AssertionError)"
  proof (cases "check_output_template_shape rl")
    case (Inl e)
    then have "subnet_base rl = Inl e" by (simp add: subnet_base_def)
    moreover from Inl have "map_of (cell_layer_data_templates rl) ''output'' \<noteq> None \<longrightarrow> e = AssertionError"
      by (auto simp: check_output_template_shape_def assert_def bind_err_def
          split: option.splits if_splits)
    ultimately show ?thesis by blast
  next
    case (Inr u)
    have out: "map_of (cell_layer_data_templates rl) ''output'' \<noteq> None"
      using Inr by (auto simp: check_output_template_shape_def split: option.splits)
    have pre: "subnet_base rl =
        bind_err (bind_err (assert (rl_max_seq_len rl \<noteq> None \<and> rl_max_seq_len rl \<noteq> Some 0))
                    (\<lambda>_. Inr (None, the (rl_max_seq_len rl), False)))
          (\<lambda>(seq_len1, max_len, known).
             bind_err
               (case target_data rl of
                  None \<Rightarrow> Inr None
                | Some y \<Rightarrow>
                    if seq_len1 \<noteq> None \<and> max_len \<noteq> length y then Inl InvalidArgumentError
                    else Inr (Some (ta_unstack y)))
               (\<lambda>y_ta0.
             let choices = get_collected_choices rl in
             bind_err
               (if choices \<noteq> [] then
                  (case map_of (cell_layer_data_templates rl) ''output'' of
                     None \<Rightarrow> Inl KeyError
                   | Some t \<Rightarrow>
                       (case search_beam_size t of
                          None \<Rightarrow> Inl AssertionError
                        | Some beam \<Rightarrow> Inr (Some beam, map_option (\<lambda>sl. tile_transposed sl beam) seq_len1)))
                else Inr (None, seq_len1))
               (\<lambda>(beam, seq_len2).
             bind_err
               (if \<not> known then bind_err (check_end_template rl) (\<lambda>t. Inr (layer_batch_dim t))
                else Inr 0)
               (\<lambda>end_batch_dim.
             Inr \<lparr>max_seq_len = max_len, have_known_seq_len = known, seq_len = seq_len2,
                  x_ta = map_option (\<lambda>(x, sl). ta_unstack x) (input_data rl), y_ta = y_ta0,
                  outputs_to_accumulate = get_outputs_to_accumulate rl,
                  collected_choices = choices, batch_dim = network_batch_dim rl,
                  output_beam_size = (case beam of None \<Rightarrow> 0 | Some b \<Rightarrow> b),
                  out_batch_dim = end_batch_dim,
                  init_net_vars = cell_init_loop_vars rl,
                  cell_step = cell_get_next_loop_vars rl\<rparr>))))"
      unfolding subnet_base_def by (simp only: Inr sl bind_err_Inr option.case)
    show ?thesis
    proof (cases "assert (rl_max_seq_len rl \<noteq> None \<and> rl_max_seq_len rl \<noteq> Some 0)")
      case (Inl e)
      then have "e = AssertionError" by (simp add: assert_def split: if_splits)
      with Inl pre have "subnet_base rl = Inl AssertionError"
        by (simp only: bind_err_Inl)
      then show ?thesis by blast
    next
      case a: (Inr v)
      have "subnet_base rl = Inl AssertionError"
        unfolding pre a using out ce
        by (auto simp: Let_def split: option.splits)
      then show ?thesis by blast
    qed
  qed
  then show ?thesis by (auto simp: run_subnet_loop_def)
qed

lemma no_end_layer_fails: "subnet_base no_end_layer = Inl AssertionError"
  by (simp add: subnet_base_def no_end_layer_def check_output_template_shape_def assert_def
      get_seq_len_def get_collected_choices_def check_end_template_def)

lemma with_end_layer_ok:
  "subnet_base with_end_layer =
     Inr \<lparr>max_seq_len = 3, have_known_seq_len = False, seq_len = None,
          x_ta = None, y_ta = None, outputs_to_accumulate = [''output_output''],
          collected_choices = [], batch_dim = 1, output_beam_size = 0, out_batch_dim = 1,
          init_net_vars = 0,
          cell_step = cell_get_next_loop_vars no_end_layer\<rparr>"
  by (simp add: subnet_base_def with_end_layer_def no_end_layer_def
      check_output_template_shape_def assert_def get_seq_len_def get_collected_choices_def
      check_end_template_def get_outputs_to_accumulate_def layer_names_with_losses_def)

theorem missing_end_layer_is_fatal_witness:
  "input_data no_end_layer = None \<and> size_placeholder (rl_output no_end_layer) = [] \<and>
   map_of (cell_layer_data_templates no_end_layer) ''end'' = None \<and>
   subnet_base no_end_layer = Inl AssertionError \<and>
   run_subnet_loop no_end_layer = Inl AssertionError \<and>
   (\<exists>env. subnet_base with_end_layer = Inr env)"
proof -
  have h1: "input_data no_end_layer = None" by (simp add: no_end_layer_def)
  have h2: "size_placeholder (rl_output no_end_layer) = []" by (simp add: no_end_layer_def)
  have h3: "map_of (cell_layer_data_templates no_end_layer) ''end'' = None"
    by (simp add: no_end_layer_def)
  then have h3': "\<not> (\<exists>t. map_of (cell_layer_data_templates no_end_layer) ''end'' = Some t \<and>
            dtype (layer_output t) = ''bool'' \<and> batch_shape (layer_output t) = [None] \<and>
            sparse (layer_output t))" by simp
  have o: "map_of (cell_layer_data_templates no_end_layer) ''output'' \<noteq> None"
    by (simp add: no_end_layer_def)
  from missing_end_layer_is_fatal[OF h1 h2 h3'] o
  have "subnet_base no_end_layer = Inl AssertionError \<and>
        run_subnet_loop no_end_layer = Inl AssertionError" by auto
  with h1 h2 h3 with_end_layer_ok show ?thesis by simp
qed
section \<open>Properties of the accumulated loss\<close>









section \<open>Flattening and rebuilding the loop variables\<close>













lemma init_extra_dict_member:
  "k \<in> set (map fst (layer_data_templates c)) \<Longrightarrow> init_extra k \<noteq> [] \<Longrightarrow>
   (k, init_extra k) \<in> set (init_extra_dict c init_extra)"
  by (auto simp: init_extra_dict_def)




















section \<open>Properties of moving layers out of the loop\<close>

lemma input_moved_append [simp]: "input_moved (xs @ ys) = input_moved xs @ input_moved ys"
  by (induction xs rule: input_moved.induct) simp_all

lemma output_moved_append [simp]: "output_moved (xs @ ys) = output_moved xs @ output_moved ys"
  by (induction xs rule: output_moved.induct) simp_all

lemma output_pass_cases:
  "(find_output_layer_to_move_out c st = None \<and> output_pass c st = Inr (None, st)) \<or>
   (\<exists>l. find_output_layer_to_move_out c st = Some l \<and> move_allowed c (OutputMove l st) \<and>
      output_pass c st =
        Inr (Some l, st\<lparr>needed_outputs := remove1 l (needed_outputs st),
                        layers_in_loop := remove1 l (layers_in_loop st),
                        output_layers_moved_out := output_layers_moved_out st @ [l]\<rparr>))"
proof (cases "find_output_layer_to_move_out c st")
  case None
  then show ?thesis by (simp add: output_pass_def)
next
  case (Some l)
  then have "l \<in> set (layers_in_loop st)" "l \<in> set (needed_outputs st)"
    "output_can_move_out c st l"
    by (auto simp: find_output_layer_to_move_out_def find_Some_iff)
  with Some show ?thesis
    by (auto simp: output_pass_def output_move_out_def list_remove_def output_can_move_out_def
        list_all_iff split: if_splits)
qed

lemma input_pass_cases:
  "(find_input_layer_to_move_out c st = None \<and> input_pass c st = Inr (None, st)) \<or>
   (\<exists>l. find_input_layer_to_move_out c st = Some l \<and> move_allowed c (InputMove l st) \<and>
      input_pass c st =
        Inr (Some l, st\<lparr>needed_outputs := remove1 l (needed_outputs st),
                        layers_in_loop := remove1 l (layers_in_loop st),
                        input_layers_moved_out := input_layers_moved_out st @ [l]\<rparr>))"
proof (cases "find_input_layer_to_move_out c st")
  case None
  then show ?thesis by (simp add: input_pass_def)
next
  case (Some l)
  then have "l \<in> set (layers_in_loop st)" "input_can_move_out c st l"
    by (auto simp: find_input_layer_to_move_out_def find_Some_iff)
  with Some show ?thesis
    by (auto simp: input_pass_def input_move_out_def list_remove_def input_can_move_out_def
        list_all_iff remove1_idem)
qed

lemma output_pass_ok:
  assumes "mol_inv A st"
  shows "\<exists>ol st1. output_pass c st = Inr (ol, st1) \<and> mol_inv A st1 \<and>
           set (layers_in_loop st1) \<subseteq> set (layers_in_loop st) \<and>
           input_layers_moved_out st1 = input_layers_moved_out st \<and>
           (case ol of
              None \<Rightarrow> st1 = st
            | Some l \<Rightarrow> move_allowed c (OutputMove l st) \<and>
                output_layers_moved_out st1 = output_layers_moved_out st @ [l])"
proof -
  from output_pass_cases[of c st] show ?thesis
  proof (elim disjE exE conjE)
    assume "output_pass c st = Inr (None, st)"
    with assms show ?thesis by simp
  next
    fix l
    assume al: "move_allowed c (OutputMove l st)"
      and op: "output_pass c st =
        Inr (Some l, st\<lparr>needed_outputs := remove1 l (needed_outputs st),
                        layers_in_loop := remove1 l (layers_in_loop st),
                        output_layers_moved_out := output_layers_moved_out st @ [l]\<rparr>)"
    from al have lin: "l \<in> set (layers_in_loop st)" by simp
    have "mol_inv A (st\<lparr>needed_outputs := remove1 l (needed_outputs st),
                        layers_in_loop := remove1 l (layers_in_loop st),
                        output_layers_moved_out := output_layers_moved_out st @ [l]\<rparr>)"
      using assms lin by (auto simp: mol_inv_def set_remove1_eq)
    moreover have "set (remove1 l (layers_in_loop st)) \<subseteq> set (layers_in_loop st)"
      by (rule set_remove1_subset)
    ultimately show ?thesis using op al by simp
  qed
qed

lemma input_pass_ok:
  assumes "mol_inv A st"
  shows "\<exists>il st1. input_pass c st = Inr (il, st1) \<and> mol_inv A st1 \<and>
           set (layers_in_loop st1) \<subseteq> set (layers_in_loop st) \<and>
           output_layers_moved_out st1 = output_layers_moved_out st \<and>
           (case il of
              None \<Rightarrow> st1 = st
            | Some l \<Rightarrow> move_allowed c (InputMove l st) \<and>
                input_layers_moved_out st1 = input_layers_moved_out st @ [l])"
proof -
  from input_pass_cases[of c st] show ?thesis
  proof (elim disjE exE conjE)
    assume "input_pass c st = Inr (None, st)"
    with assms show ?thesis by simp
  next
    fix l
    assume al: "move_allowed c (InputMove l st)"
      and op: "input_pass c st =
        Inr (Some l, st\<lparr>needed_outputs := remove1 l (needed_outputs st),
                        layers_in_loop := remove1 l (layers_in_loop st),
                        input_layers_moved_out := input_layers_moved_out st @ [l]\<rparr>)"
    from al have lin: "l \<in> set (layers_in_loop st)" by simp
    have "mol_inv A (st\<lparr>needed_outputs := remove1 l (needed_outputs st),
                        layers_in_loop := remove1 l (layers_in_loop st),
                        input_layers_moved_out := input_layers_moved_out st @ [l]\<rparr>)"
      using assms lin by (auto simp: mol_inv_def set_remove1_eq)
    moreover have "set (remove1 l (layers_in_loop st)) \<subseteq> set (layers_in_loop st)"
      by (rule set_remove1_subset)
    ultimately show ?thesis using op al by simp
  qed
qed

lemma move_pass_ok:
  assumes "mol_inv A st"
  shows "\<exists>st2 again. move_pass c st = Inr (st2, again) \<and> mol_inv A st2 \<and>
           set (layers_in_loop st2) \<subseteq> set (layers_in_loop st) \<and>
           output_layers_moved_out st2 = output_layers_moved_out st @ output_moved (pass_moves c st) \<and>
           input_layers_moved_out st2 = input_layers_moved_out st @ input_moved (pass_moves c st) \<and>
           (\<forall>m\<in>set (pass_moves c st). move_allowed c m \<and>
              set (layers_in_loop st2) \<subseteq> set (layers_in_loop (move_state m)))"
proof -
  from output_pass_ok[OF assms, of c] obtain ol st1 where
    op: "output_pass c st = Inr (ol, st1)" and inv1: "mol_inv A st1"
    and sub1: "set (layers_in_loop st1) \<subseteq> set (layers_in_loop st)"
    and in1: "input_layers_moved_out st1 = input_layers_moved_out st"
    and c1: "case ol of None \<Rightarrow> st1 = st
            | Some l \<Rightarrow> move_allowed c (OutputMove l st) \<and>
                output_layers_moved_out st1 = output_layers_moved_out st @ [l]"
    by blast
  from input_pass_ok[OF inv1, of c] obtain il st2 where
    ip: "input_pass c st1 = Inr (il, st2)" and inv2: "mol_inv A st2"
    and sub2: "set (layers_in_loop st2) \<subseteq> set (layers_in_loop st1)"
    and out2: "output_layers_moved_out st2 = output_layers_moved_out st1"
    and c2: "case il of None \<Rightarrow> st2 = st1
            | Some l \<Rightarrow> move_allowed c (InputMove l st1) \<and>
                input_layers_moved_out st2 = input_layers_moved_out st1 @ [l]"
    by blast
  have mp: "move_pass c st = Inr (st2, \<not> (ol = None \<and> il = None))"
    using op ip by (simp add: move_pass_def)
  have pm: "pass_moves c st =
      (case ol of None \<Rightarrow> [] | Some l \<Rightarrow> [OutputMove l st]) @
      (case il of None \<Rightarrow> [] | Some l \<Rightarrow> [InputMove l st1])"
    using op ip by (simp add: pass_moves_def)
  have "output_layers_moved_out st2 = output_layers_moved_out st @ output_moved (pass_moves c st)"
    using c1 c2 out2 by (auto simp: pm split: option.splits)
  moreover have "input_layers_moved_out st2 = input_layers_moved_out st @ input_moved (pass_moves c st)"
    using c1 c2 in1 by (auto simp: pm split: option.splits)
  moreover have "\<forall>m\<in>set (pass_moves c st). move_allowed c m \<and>
              set (layers_in_loop st2) \<subseteq> set (layers_in_loop (move_state m))"
    using c1 c2 sub1 sub2 by (auto simp: pm split: option.splits)
  ultimately show ?thesis using mp inv2 sub1 sub2 by blast
qed

lemma move_while_ok:
  "mol_inv A st \<Longrightarrow>
   \<exists>fin. move_while c st = Inr fin \<and> mol_inv A fin \<and>
     set (layers_in_loop fin) \<subseteq> set (layers_in_loop st) \<and>
     output_layers_moved_out fin = output_layers_moved_out st @ output_moved (moves c st) \<and>
     input_layers_moved_out fin = input_layers_moved_out st @ input_moved (moves c st) \<and>
     (\<forall>m\<in>set (moves c st). move_allowed c m \<and>
        set (layers_in_loop fin) \<subseteq> set (layers_in_loop (move_state m)))"
proof (induction c st rule: move_while.induct)
  case (1 c st)
  from move_pass_ok[OF "1.prems", of c] obtain st2 again where
    mp: "move_pass c st = Inr (st2, again)" and inv2: "mol_inv A st2"
    and sub: "set (layers_in_loop st2) \<subseteq> set (layers_in_loop st)"
    and out: "output_layers_moved_out st2 = output_layers_moved_out st @ output_moved (pass_moves c st)"
    and inp: "input_layers_moved_out st2 = input_layers_moved_out st @ input_moved (pass_moves c st)"
    and al: "\<forall>m\<in>set (pass_moves c st). move_allowed c m \<and>
              set (layers_in_loop st2) \<subseteq> set (layers_in_loop (move_state m))"
    by blast
  show ?case
  proof (cases again)
    case False
    have w: "move_while c st = Inr st2"
      using mp False by (subst move_while.simps) simp
    have m: "moves c st = pass_moves c st"
      using mp False by (subst moves.simps) simp
    from w m inv2 sub out inp al show ?thesis by simp
  next
    case True
    have w: "move_while c st = move_while c st2"
      using mp True by (subst move_while.simps) simp
    have m: "moves c st = pass_moves c st @ moves c st2"
      using mp True by (subst moves.simps) simp
    from "1.IH"[OF mp refl True inv2] obtain fin where
      wf: "move_while c st2 = Inr fin" and invf: "mol_inv A fin"
      and subf: "set (layers_in_loop fin) \<subseteq> set (layers_in_loop st2)"
      and outf: "output_layers_moved_out fin = output_layers_moved_out st2 @ output_moved (moves c st2)"
      and inpf: "input_layers_moved_out fin = input_layers_moved_out st2 @ input_moved (moves c st2)"
      and alf: "\<forall>m\<in>set (moves c st2). move_allowed c m \<and>
        set (layers_in_loop fin) \<subseteq> set (layers_in_loop (move_state m))"
      by blast
    have "\<forall>m\<in>set (moves c st). move_allowed c m \<and>
        set (layers_in_loop fin) \<subseteq> set (layers_in_loop (move_state m))"
      using al alf subf unfolding m by auto
    with w wf invf sub subf outf inpf out inp m show ?thesis by auto
  qed
qed

lemma output_moved_iff: "l \<in> set (output_moved ms) \<longleftrightarrow> (\<exists>s. OutputMove l s \<in> set ms)"
  by (induction ms rule: output_moved.induct) auto

lemma input_moved_iff: "l \<in> set (input_moved ms) \<longleftrightarrow> (\<exists>s. InputMove l s \<in> set ms)"
  by (induction ms rule: input_moved.induct) auto

text \<open>
  Claim C6. For every template graph (a dict of templates, so without repeated names),
  \<open>move_outside_loop\<close> terminates without error, and the layers left in the loop, the input
  layers moved out and the output layers moved out list every template layer exactly once.
  Every layer moved to the output side was, in the state in which it was chosen, not in
  \<open>prev_layers_needed\<close> and not a dependency of any layer then in the loop; every layer moved
  to the input side had, in the state in which it was chosen, no dependency among the layers
  then in the loop. The same holds with respect to the layers that remain in the loop at the
  end.
\<close>

theorem move_outside_loop_partitions:
  assumes "distinct (map fst (layer_data_templates c))"
  shows "\<exists>fin. move_outside_loop c = Inr fin \<and>
     set (layers_in_loop fin) \<union> set (input_layers_moved_out fin) \<union>
       set (output_layers_moved_out fin) = set (map fst (layer_data_templates c)) \<and>
     distinct (layers_in_loop fin @ input_layers_moved_out fin @ output_layers_moved_out fin) \<and>
     output_layers_moved_out fin = output_moved (moves c (mol_init c)) \<and>
     input_layers_moved_out fin = input_moved (moves c (mol_init c)) \<and>
     (\<forall>l s. OutputMove l s \<in> set (moves c (mol_init c)) \<longrightarrow>
        l \<in> set (layers_in_loop s) \<and> l \<notin> set (prev_layers_needed c) \<and>
        (\<forall>other\<in>set (layers_in_loop s). SubLayer l \<notin> set (get_dep_layers c other))) \<and>
     (\<forall>l s. InputMove l s \<in> set (moves c (mol_init c)) \<longrightarrow>
        l \<in> set (layers_in_loop s) \<and>
        (\<forall>other\<in>set (layers_in_loop s). SubLayer other \<notin> set (get_dep_layers c l))) \<and>
     (\<forall>l\<in>set (output_layers_moved_out fin).
        l \<notin> set (prev_layers_needed c) \<and>
        (\<forall>other\<in>set (layers_in_loop fin). SubLayer l \<notin> set (get_dep_layers c other))) \<and>
     (\<forall>l\<in>set (input_layers_moved_out fin).
        \<forall>other\<in>set (layers_in_loop fin). SubLayer other \<notin> set (get_dep_layers c l))"
proof -
  let ?A = "set (map fst (layer_data_templates c))"
  have inv0: "mol_inv ?A (mol_init c)"
    using assms by (simp add: mol_inv_def mol_init_def)
  from move_while_ok[OF inv0, of c] obtain fin where
    w: "move_while c (mol_init c) = Inr fin" and inv: "mol_inv ?A fin"
    and out: "output_layers_moved_out fin = output_moved (moves c (mol_init c))"
    and inp: "input_layers_moved_out fin = input_moved (moves c (mol_init c))"
    and al: "\<forall>m\<in>set (moves c (mol_init c)). move_allowed c m \<and>
        set (layers_in_loop fin) \<subseteq> set (layers_in_loop (move_state m))"
    by (auto simp: mol_init_def)
  have om: "\<forall>l s. OutputMove l s \<in> set (moves c (mol_init c)) \<longrightarrow>
        l \<in> set (layers_in_loop s) \<and> l \<notin> set (prev_layers_needed c) \<and>
        (\<forall>other\<in>set (layers_in_loop s). SubLayer l \<notin> set (get_dep_layers c other))"
    using al by fastforce
  have im: "\<forall>l s. InputMove l s \<in> set (moves c (mol_init c)) \<longrightarrow>
        l \<in> set (layers_in_loop s) \<and>
        (\<forall>other\<in>set (layers_in_loop s). SubLayer other \<notin> set (get_dep_layers c l))"
    using al by fastforce
  have of: "\<forall>l\<in>set (output_layers_moved_out fin).
        l \<notin> set (prev_layers_needed c) \<and>
        (\<forall>other\<in>set (layers_in_loop fin). SubLayer l \<notin> set (get_dep_layers c other))"
  proof (intro ballI)
    fix l assume "l \<in> set (output_layers_moved_out fin)"
    then obtain s where m: "OutputMove l s \<in> set (moves c (mol_init c))"
      by (auto simp: out output_moved_iff)
    with al have "set (layers_in_loop fin) \<subseteq> set (layers_in_loop s)" by fastforce
    with om m show "l \<notin> set (prev_layers_needed c) \<and>
        (\<forall>other\<in>set (layers_in_loop fin). SubLayer l \<notin> set (get_dep_layers c other))"
      by blast
  qed
  have "if": "\<forall>l\<in>set (input_layers_moved_out fin).
        \<forall>other\<in>set (layers_in_loop fin). SubLayer other \<notin> set (get_dep_layers c l)"
  proof (intro ballI)
    fix l other assume "l \<in> set (input_layers_moved_out fin)"
      and o: "other \<in> set (layers_in_loop fin)"
    then obtain s where m: "InputMove l s \<in> set (moves c (mol_init c))"
      by (auto simp: inp input_moved_iff)
    with al have "set (layers_in_loop fin) \<subseteq> set (layers_in_loop s)" by fastforce
    with im m o show "SubLayer other \<notin> set (get_dep_layers c l)" by blast
  qed
  from w inv out inp om im of "if" show ?thesis
    unfolding move_outside_loop_def mol_inv_def by blast
qed

lemma example_moves:
  "move_outside_loop example_cell =
     Inr \<lparr>layers_in_loop = [''s''], input_layers_moved_out = [''c''],
          output_layers_moved_out = [''output''], needed_outputs = []\<rparr>"
  by (simp add: move_outside_loop_def mol_init_def move_while.simps move_pass_def output_pass_def
      input_pass_def find_output_layer_to_move_out_def find_input_layer_to_move_out_def
      output_can_move_out_def input_can_move_out_def output_move_out_def input_move_out_def
      list_remove_def get_dep_layers_def example_cell_def)

theorem move_outside_loop_partitions_witness:
  "distinct (map fst (layer_data_templates example_cell)) \<and>
   move_outside_loop example_cell =
     Inr \<lparr>layers_in_loop = [''s''], input_layers_moved_out = [''c''],
          output_layers_moved_out = [''output''], needed_outputs = []\<rparr> \<and>
   ''output'' \<notin> set (prev_layers_needed example_cell) \<and>
   SubLayer ''output'' \<notin> set (get_dep_layers example_cell ''s'') \<and>
   SubLayer ''s'' \<notin> set (get_dep_layers example_cell ''c'')"
proof -
  have h: "distinct (map fst (layer_data_templates example_cell))"
    by (simp add: example_cell_def)
  from move_outside_loop_partitions[OF h] obtain fin where
    m: "move_outside_loop example_cell = Inr fin"
    and o: "\<forall>l\<in>set (output_layers_moved_out fin).
        l \<notin> set (prev_layers_needed example_cell) \<and>
        (\<forall>other\<in>set (layers_in_loop fin). SubLayer l \<notin> set (get_dep_layers example_cell other))"
    and i: "\<forall>l\<in>set (input_layers_moved_out fin).
        \<forall>other\<in>set (layers_in_loop fin). SubLayer other \<notin> set (get_dep_layers example_cell l)"
    by blast
  from m example_moves have f: "fin = \<lparr>layers_in_loop = [''s''], input_layers_moved_out = [''c''],
          output_layers_moved_out = [''output''], needed_outputs = []\<rparr>" by simp
  from o have "''output'' \<notin> set (prev_layers_needed example_cell) \<and>
     SubLayer ''output'' \<notin> set (get_dep_layers example_cell ''s'')"
    unfolding f by simp
  moreover from i have "SubLayer ''s'' \<notin> set (get_dep_layers example_cell ''c'')"
    unfolding f by simp
  ultimately show ?thesis using h example_moves by blast
qed
section \<open>Properties of the construction of the template graph\<close>

lemma cyclic_run:
  "construct_template 3 cyclic_env =
     Inr \<lparr>layer_data_templates =
            [(''output'', \<lparr>dependencies = [SubLayer ''a''], initialized = True\<rparr>),
             (''a'', \<lparr>dependencies = [SubLayer ''output''], initialized = True\<rparr>)],
          prev_layers_needed = []\<rparr>"
  by (simp add: construct_template_def cyclic_env_def numeral_3_eq_3 existing_layer_def
      note_prev_def layer_name_def startswith_def new_template_def finish_template_def
      add_templated_layer_def add_to_top_def add_dependency_def assert_def Let_def)

lemma fst_update_key [simp]:
  "fst (case x of (k, t) \<Rightarrow> if k = name then (k, f t) else (k, t)) = fst x"
  by (cases x) simp

lemma tmpl_add_dependency [simp]:
  "fst ` set (layer_data_templates (add_dependency owner r c)) =
   fst ` set (layer_data_templates c)"
  by (simp add: add_dependency_def image_image)

lemma tmpl_add_dependency_state [simp]:
  "tmpl (st\<lparr>cell_of := add_dependency owner r (cell_of st)\<rparr>) = tmpl st"
  by (simp add: tmpl_def)

lemma add_to_top_Inr:
  assumes "add_to_top r st = Inr st'"
  shows "tmpl st' = tmpl st \<and> ctx_layers st' = ctx_layers st"
proof -
  from assms have "st' = st\<lparr>cell_of := add_dependency (last (ctx_layers st)) r (cell_of st)\<rparr>"
    by (simp add: add_to_top_def split: if_splits)
  then show ?thesis by simp
qed

lemma note_prev_same [simp]:
  "tmpl (note_prev name0 st) = tmpl st" "ctx_layers (note_prev name0 st) = ctx_layers st"
  by (simp_all add: note_prev_def tmpl_def)

lemma new_template_props [simp]:
  "tmpl (new_template st name) = insert name (tmpl st)"
  "ctx_layers (new_template st name) = ctx_layers st @ [name]"
  by (simp_all add: new_template_def tmpl_def Let_def)

lemma add_templated_layer_Inr:
  assumes "add_templated_layer env st name desc = Inr st'"
  shows "tmpl st' = tmpl st \<and> ctx_layers st' = ctx_layers st"
proof -
  from assms have "st' = st\<lparr>cell_of := (cell_of st)\<lparr>layer_data_templates :=
                   map (\<lambda>(k, t). if k = name then (k, t\<lparr>initialized := True\<rparr>) else (k, t))
                     (layer_data_templates (cell_of st))\<rparr>\<rparr>"
    by (auto simp: add_templated_layer_def split: option.splits if_splits)
  then show ?thesis by (simp add: tmpl_def image_image)
qed

lemma finish_template_Inr:
  assumes "finish_template env st name desc = Inr st'"
  shows "tmpl st' = tmpl st \<and> ctx_layers st = ctx_layers st' @ [name]"
proof -
  from assms obtain st5 where a: "add_templated_layer env st name desc = Inr st5"
    and c: "ctx_layers st5 \<noteq> []" "last (ctx_layers st5) = name"
    and e: "st' = st5\<lparr>ctx_layers := butlast (ctx_layers st5)\<rparr>"
    by (auto simp: finish_template_def bind_err_def split: sum.splits if_splits)
  from add_templated_layer_Inr[OF a] have s: "tmpl st5 = tmpl st" "ctx_layers st5 = ctx_layers st"
    by simp_all
  from c have "butlast (ctx_layers st5) @ [name] = ctx_layers st5"
    using append_butlast_last_id by blast
  with s e show ?thesis by (simp add: tmpl_def)
qed

lemma existing_layer_Inr:
  assumes "existing_layer env st name = Some (Inr st')"
  shows "tmpl st' = tmpl st \<and> ctx_layers st' = ctx_layers st \<and>
         (\<not> startswith name ''base:'' \<longrightarrow> name \<in> tmpl st)"
proof (cases "name \<in> tmpl st")
  case True
  with assms have "add_to_top (SubLayer name) st = Inr st'"
    by (simp add: existing_layer_def tmpl_def)
  from add_to_top_Inr[OF this] True show ?thesis by simp
next
  case False
  with assms have b: "startswith name ''base:''"
    and "add_to_top (BaseLayer (drop 5 name)) st = Inr st'"
    by (simp_all add: existing_layer_def tmpl_def split: if_splits)
  from add_to_top_Inr[OF this(2)] b show ?thesis by simp
qed

lemma construct_mono:
  "(get_templated_layer n env st name0 = Inr st' \<longrightarrow>
      tmpl st \<subseteq> tmpl st' \<and> ctx_layers st' = ctx_layers st \<and>
      (\<not> startswith (layer_name name0) ''base:'' \<longrightarrow> layer_name name0 \<in> tmpl st'))"
  "(construct_sources n env st srcs = Inr st' \<longrightarrow>
      tmpl st \<subseteq> tmpl st' \<and> ctx_layers st' = ctx_layers st)"
proof (induction n env st name0 and n env st srcs arbitrary: st' and st'
    rule: get_templated_layer_construct_sources.induct)
  case (1 env st name0)
  show ?case by simp
next
  case (2 n env st name0)
  let ?st1 = "note_prev name0 st" and ?name = "layer_name name0"
  show ?case
  proof (cases "existing_layer env ?st1 ?name")
    case (Some r)
    show ?thesis
    proof (intro impI)
      assume g: "get_templated_layer (Suc n) env st name0 = Inr st'"
      with Some have r: "existing_layer env ?st1 ?name = Some (Inr st')" by simp
      from existing_layer_Inr[OF r] have a: "tmpl st' = tmpl st" "ctx_layers st' = ctx_layers st"
        and "\<not> startswith ?name ''base:'' \<longrightarrow> ?name \<in> tmpl st"
        by simp_all
      then have "\<not> startswith ?name ''base:'' \<longrightarrow> ?name \<in> tmpl st'" by simp
      with a show "tmpl st \<subseteq> tmpl st' \<and> ctx_layers st' = ctx_layers st \<and>
        (\<not> startswith ?name ''base:'' \<longrightarrow> ?name \<in> tmpl st')" by simp
    qed
  next
    case None
    show ?thesis
    proof (intro impI)
      assume g: "get_templated_layer (Suc n) env st name0 = Inr st'"
      with None obtain desc st4 where
        d: "map_of (net_dict env) ?name = Some desc"
        and cs: "construct_sources n env (new_template ?st1 ?name) (sources desc) = Inr st4"
        and f: "finish_template env st4 ?name desc = Inr st'"
        by (auto split: option.splits sum.splits)
      from "2.IH"[OF None d] cs have
        m: "tmpl (new_template ?st1 ?name) \<subseteq> tmpl st4"
        "ctx_layers st4 = ctx_layers (new_template ?st1 ?name)" by auto
      from finish_template_Inr[OF f] have
        e: "tmpl st' = tmpl st4" "ctx_layers st4 = ctx_layers st' @ [?name]" by simp_all
      from m e show "tmpl st \<subseteq> tmpl st' \<and> ctx_layers st' = ctx_layers st \<and>
        (\<not> startswith ?name ''base:'' \<longrightarrow> ?name \<in> tmpl st')" by auto
    qed
  qed
next
  case (3 n env st)
  show ?case by simp
next
  case (4 n env st src rest)
  show ?case
  proof (intro impI)
    assume c: "construct_sources n env st (src # rest) = Inr st'"
    then obtain st1 where g: "get_templated_layer n env st src = Inr st1"
      and r: "construct_sources n env st1 rest = Inr st'"
      by (auto split: sum.splits)
    from "4.IH"(1) g have "tmpl st \<subseteq> tmpl st1" "ctx_layers st1 = ctx_layers st" by auto
    moreover from "4.IH"(2)[OF g] r have "tmpl st1 \<subseteq> tmpl st'" "ctx_layers st' = ctx_layers st1"
      by auto
    ultimately show "tmpl st \<subseteq> tmpl st' \<and> ctx_layers st' = ctx_layers st" by auto
  qed
qed

lemma existing_layer_Inl:
  "existing_layer env st name = Some (Inl e) \<Longrightarrow> e = IndexError \<or> e = KeyError"
  by (auto simp: existing_layer_def add_to_top_def split: if_splits)

lemma existing_layer_Some:
  "existing_layer env st name = Some r \<Longrightarrow>
     (name \<in> tmpl st \<and> r = add_to_top (SubLayer name) st) \<or>
     (name \<notin> tmpl st \<and> startswith name ''base:'' \<and>
      r = (if drop 5 name \<in> set (parent_layers env)
           then add_to_top (BaseLayer (drop 5 name)) st else Inl KeyError))"
  by (simp add: existing_layer_def tmpl_def split: if_splits)

lemma existing_layer_None:
  "existing_layer env st name = None \<Longrightarrow> name \<notin> tmpl st \<and> \<not> startswith name ''base:''"
  by (simp add: existing_layer_def tmpl_def split: if_splits)

lemma finish_template_Inl:
  "finish_template env st name desc = Inl e \<Longrightarrow> e \<noteq> RecursionError"
  by (auto simp: finish_template_def add_templated_layer_def bind_err_def
      split: sum.splits option.splits if_splits)

lemma card_undone:
  assumes "name \<in> keys env" and "name \<notin> T" and "card (keys env - T) < Suc n"
  shows "card (keys env - insert name T) < n"
proof -
  have f: "finite (keys env - T)" by (simp add: keys_def)
  have "keys env - insert name T = (keys env - T) - {name}" by auto
  moreover from assms have "name \<in> keys env - T" by simp
  ultimately have "card (keys env - insert name T) = card (keys env - T) - 1"
    using f by (simp add: card_Diff_singleton)
  moreover from \<open>name \<in> keys env - T\<close> f have "0 < card (keys env - T)"
    by (auto simp: card_gt_0_iff)
  ultimately show ?thesis using assms(3) by simp
qed

lemma card_undone_mono:
  assumes "T \<subseteq> T'" and "card (keys env - T) < n"
  shows "card (keys env - T') < n"
proof -
  have "card (keys env - T') \<le> card (keys env - T)"
    using assms(1) by (intro card_mono) (auto simp: keys_def)
  with assms(2) show ?thesis by simp
qed

lemma construct_no_recursion_error:
  "card (keys env - tmpl st) < n \<longrightarrow> get_templated_layer n env st name0 \<noteq> Inl RecursionError"
  "card (keys env - tmpl st) < n \<longrightarrow> construct_sources n env st srcs \<noteq> Inl RecursionError"
proof (induction n env st name0 and n env st srcs
    rule: get_templated_layer_construct_sources.induct)
  case (1 env st name0)
  show ?case by simp
next
  case (2 n env st name0)
  let ?st1 = "note_prev name0 st" and ?name = "layer_name name0"
  show ?case
  proof (intro impI)
    assume c: "card (keys env - tmpl st) < Suc n"
    show "get_templated_layer (Suc n) env st name0 \<noteq> Inl RecursionError"
    proof (cases "existing_layer env ?st1 ?name")
      case (Some r)
      then show ?thesis by (cases r) (auto dest: existing_layer_Inl)
    next
      case None
      note ex = existing_layer_None[OF None]
      show ?thesis
      proof (cases "map_of (net_dict env) ?name")
        case None
        with \<open>existing_layer env ?st1 ?name = None\<close> show ?thesis by simp
      next
        case (Some desc)
        then have k: "?name \<in> keys env"
          by (auto simp: keys_def dest: map_of_SomeD intro: rev_image_eqI)
        from card_undone[OF k _ c, of ] ex
        have c3: "card (keys env - tmpl (new_template ?st1 ?name)) < n" by simp
        from "2.IH"[OF None Some] c3
        have nr: "construct_sources n env (new_template ?st1 ?name) (sources desc) \<noteq> Inl RecursionError"
          by simp
        show ?thesis
        proof (cases "construct_sources n env (new_template ?st1 ?name) (sources desc)")
          case (Inl e)
          with nr None Some show ?thesis by simp
        next
          case (Inr st4)
          with None Some show ?thesis
            by (cases "finish_template env st4 ?name desc") (auto dest: finish_template_Inl)
        qed
      qed
    qed
  qed
next
  case (3 n env st)
  show ?case by simp
next
  case (4 n env st src rest)
  show ?case
  proof (intro impI)
    assume c: "card (keys env - tmpl st) < n"
    show "construct_sources n env st (src # rest) \<noteq> Inl RecursionError"
    proof (cases "get_templated_layer n env st src")
      case (Inl e)
      with "4.IH"(1) c show ?thesis by auto
    next
      case (Inr st1)
      from construct_mono(1)[of n env st src st1] Inr have "tmpl st \<subseteq> tmpl st1" by simp
      from card_undone_mono[OF this c] "4.IH"(2)[OF Inr] Inr show ?thesis by simp
    qed
  qed
qed

lemma finish_template_ok:
  assumes "name \<in> tmpl st" and "descriptors_ok env" and "ctx_layers st = cs @ [name]"
  shows "\<exists>st'. finish_template env st name desc = Inr st'"
proof -
  from assms(1) have "map_of (layer_data_templates (cell_of st)) name \<noteq> None"
    by (simp add: tmpl_def map_of_eq_None_iff)
  then obtain t where "map_of (layer_data_templates (cell_of st)) name = Some t" by blast
  with assms(2,3) show ?thesis
    by (simp add: finish_template_def add_templated_layer_def descriptors_ok_def)
qed

lemma construct_succeeds:
  "closed_decl env \<longrightarrow> descriptors_ok env \<longrightarrow> card (keys env - tmpl st) < n \<longrightarrow>
   resolvable env name0 \<longrightarrow>
   (ctx_layers st \<noteq> [] \<or>
      (layer_name name0 \<notin> tmpl st \<and> \<not> startswith (layer_name name0) ''base:'')) \<longrightarrow>
   (\<exists>st'. get_templated_layer n env st name0 = Inr st')"
  "closed_decl env \<longrightarrow> descriptors_ok env \<longrightarrow> card (keys env - tmpl st) < n \<longrightarrow>
   ctx_layers st \<noteq> [] \<longrightarrow> (\<forall>src\<in>set srcs. resolvable env src) \<longrightarrow>
   (\<exists>st'. construct_sources n env st srcs = Inr st')"
proof (induction n env st name0 and n env st srcs
    rule: get_templated_layer_construct_sources.induct)
  case (1 env st name0)
  show ?case by simp
next
  case (2 n env st name0)
  let ?st1 = "note_prev name0 st" and ?name = "layer_name name0"
  show ?case
  proof (intro impI)
    assume cl: "closed_decl env" and dk: "descriptors_ok env"
      and c: "card (keys env - tmpl st) < Suc n" and rs: "resolvable env name0"
      and cx: "ctx_layers st \<noteq> [] \<or> (?name \<notin> tmpl st \<and> \<not> startswith ?name ''base:'')"
    show "\<exists>st'. get_templated_layer (Suc n) env st name0 = Inr st'"
    proof (cases "existing_layer env ?st1 ?name")
      case (Some r)
      from existing_layer_Some[OF Some] cx have ne: "ctx_layers ?st1 \<noteq> []" by auto
      from existing_layer_Some[OF Some] rs ne have "\<exists>st'. r = Inr st'"
        by (auto simp: add_to_top_def resolvable_def)
      with Some show ?thesis by auto
    next
      case None
      note ex = existing_layer_None[OF None]
      from rs ex have k: "?name \<in> keys env" by (simp add: resolvable_def)
      then have "map_of (net_dict env) ?name \<noteq> None"
        by (simp add: keys_def map_of_eq_None_iff)
      then obtain desc where d: "map_of (net_dict env) ?name = Some desc" by blast
      from cl d have srcs: "\<forall>src\<in>set (sources desc). resolvable env src"
        by (auto simp: closed_decl_def)
      from card_undone[OF k _ c] ex
      have c3: "card (keys env - tmpl (new_template ?st1 ?name)) < n" by simp
      from "2.IH"[OF None d] cl dk c3 srcs obtain st4 where
        cs: "construct_sources n env (new_template ?st1 ?name) (sources desc) = Inr st4"
        by auto
      from construct_mono(2)[of n env "new_template ?st1 ?name" "sources desc" st4] cs
      have "?name \<in> tmpl st4" "ctx_layers st4 = ctx_layers st @ [?name]" by auto
      from finish_template_ok[OF this(1) dk this(2)] obtain st' where
        "finish_template env st4 ?name desc = Inr st'" by blast
      with None d cs show ?thesis by simp
    qed
  qed
next
  case (3 n env st)
  show ?case by simp
next
  case (4 n env st src rest)
  show ?case
  proof (intro impI)
    assume cl: "closed_decl env" and dk: "descriptors_ok env"
      and c: "card (keys env - tmpl st) < n" and cx: "ctx_layers st \<noteq> []"
      and rs: "\<forall>s\<in>set (src # rest). resolvable env s"
    from "4.IH"(1) cl dk c cx rs obtain st1 where g: "get_templated_layer n env st src = Inr st1"
      by auto
    from construct_mono(1)[of n env st src st1] g
    have m: "tmpl st \<subseteq> tmpl st1" "ctx_layers st1 = ctx_layers st" by auto
    from "4.IH"(2)[OF g] cl dk card_undone_mono[OF m(1) c] cx m(2) rs
    obtain st' where "construct_sources n env st1 rest = Inr st'" by auto
    with g show "\<exists>st'. construct_sources n env st (src # rest) = Inr st'" by simp
  qed
qed

lemma card_keys: "card (keys env) \<le> length (net_dict env)"
  unfolding keys_def by (metis card_length length_map)

lemma construct_template_no_recursion_error:
  assumes "length (net_dict env) < fuel"
  shows "construct_template fuel env \<noteq> Inl RecursionError"
proof -
  let ?st0 = "\<lparr>cell_of = \<lparr>layer_data_templates = [], prev_layers_needed = []\<rparr>, ctx_layers = []\<rparr>"
  have c0: "card (keys env - tmpl st) < fuel" for st
  proof -
    have "card (keys env - tmpl st) \<le> card (keys env)"
      by (intro card_mono) (auto simp: keys_def)
    with card_keys[of env] assms show ?thesis by simp
  qed
  show ?thesis
  proof (cases "get_templated_layer fuel env ?st0 ''output''")
    case (Inl e)
    with construct_no_recursion_error(1)[of env ?st0 fuel "''output''"] c0
    show ?thesis by (auto simp: construct_template_def)
  next
    case (Inr st1)
    show ?thesis
    proof (cases "get_templated_layer fuel env st1 ''end''")
      case (Inl e)
      with construct_no_recursion_error(1)[of env st1 fuel "''end''"] c0
      have "e \<noteq> RecursionError" by auto
      with Inl Inr show ?thesis
        by (auto simp: construct_template_def assert_def bind_err_def)
    next
      case r: (Inr st2)
      with Inr show ?thesis
        by (auto simp: construct_template_def assert_def bind_err_def)
    qed
  qed
qed

lemma construct_template_succeeds:
  assumes "length (net_dict env) < fuel" and "closed_decl env" and "descriptors_ok env"
    and "''output'' \<in> keys env" and "''end'' \<notin> keys env"
  shows "\<exists>c. construct_template fuel env = Inr c \<and> ''output'' \<in> set (map fst (layer_data_templates c))"
proof -
  let ?st0 = "\<lparr>cell_of = \<lparr>layer_data_templates = [], prev_layers_needed = []\<rparr>, ctx_layers = []\<rparr>"
  have c0: "card (keys env - tmpl ?st0) < fuel"
  proof -
    have "card (keys env - tmpl ?st0) \<le> card (keys env)"
      by (intro card_mono) (auto simp: keys_def)
    with card_keys[of env] assms(1) show ?thesis by simp
  qed
  have n: "layer_name ''output'' = ''output''" by (simp add: layer_name_def startswith_def)
  have nb: "\<not> startswith ''output'' ''base:''" by (simp add: startswith_def)
  have rs: "resolvable env ''output''" using assms(4) by (simp add: resolvable_def n nb)
  have t0: "''output'' \<notin> tmpl ?st0" by (simp add: tmpl_def)
  from construct_succeeds(1)[of env ?st0 fuel "''output''"] assms(2,3) c0 rs t0 n nb
  obtain st1 where g: "get_templated_layer fuel env ?st0 ''output'' = Inr st1" by auto
  from construct_mono(1)[of fuel env ?st0 "''output''" st1] g n nb
  have "''output'' \<in> tmpl st1" "ctx_layers st1 = []" by auto
  with g assms(5) have "construct_template fuel env = Inr (cell_of st1)"
    by (simp add: construct_template_def assert_def tmpl_def keys_def)
  with \<open>''output'' \<in> tmpl st1\<close> show ?thesis by (simp add: tmpl_def)
qed

lemma existing_template_returned:
  assumes "layer_name name0 \<in> tmpl st" and "ctx_layers st \<noteq> []"
  shows "get_templated_layer (Suc n) env st name0 =
     Inr ((note_prev name0 st)\<lparr>cell_of :=
            add_dependency (last (ctx_layers st)) (SubLayer (layer_name name0))
              (cell_of (note_prev name0 st))\<rparr>)"
proof -
  from assms(1) have "layer_name name0 \<in> tmpl (note_prev name0 st)" by simp
  then have "existing_layer env (note_prev name0 st) (layer_name name0) =
      Some (add_to_top (SubLayer (layer_name name0)) (note_prev name0 st))"
    by (simp add: existing_layer_def tmpl_def)
  with assms(2) show ?thesis by (simp add: add_to_top_def)
qed

text \<open>
  Claim C8, as amended. The construction of the template graph does not detect same-step
  cycles. It terminates on every declaration (the recursion is never deeper than the number of
  declared layers plus one). On every declaration whose sources all resolve, whose layer
  classes compute their output descriptors, that declares \<open>output\<close> and no \<open>end\<close> layer, it
  completes successfully with a template for \<open>output\<close>, whether or not its same-step
  dependencies cycle. A name that already has a template, also one whose construction has not
  finished, is answered with that template, recorded as a dependency of the layer under
  construction.
\<close>

theorem template_construction_ignores_cycles:
  "(length (net_dict env) < fuel \<longrightarrow> construct_template fuel env \<noteq> Inl RecursionError) \<and>
   (length (net_dict env) < fuel \<longrightarrow> closed_decl env \<longrightarrow> descriptors_ok env \<longrightarrow>
      ''output'' \<in> keys env \<longrightarrow> ''end'' \<notin> keys env \<longrightarrow>
      (\<exists>c. construct_template fuel env = Inr c \<and>
           ''output'' \<in> set (map fst (layer_data_templates c)))) \<and>
   (layer_name name0 \<in> tmpl st \<longrightarrow> ctx_layers st \<noteq> [] \<longrightarrow>
      get_templated_layer (Suc n) env st name0 =
        Inr ((note_prev name0 st)\<lparr>cell_of :=
               add_dependency (last (ctx_layers st)) (SubLayer (layer_name name0))
                 (cell_of (note_prev name0 st))\<rparr>))"
  using construct_template_no_recursion_error construct_template_succeeds
    existing_template_returned by blast

lemma cyclic_env_closed: "closed_decl cyclic_env"
  by (auto simp: closed_decl_def cyclic_env_def resolvable_def layer_name_def startswith_def
      keys_def split: if_splits)

theorem template_construction_ignores_cycles_witness:
  "length (net_dict cyclic_env) < 3 \<and> closed_decl cyclic_env \<and> descriptors_ok cyclic_env \<and>
   ''output'' \<in> keys cyclic_env \<and> ''end'' \<notin> keys cyclic_env \<and>
   construct_template 3 cyclic_env \<noteq> Inl RecursionError \<and>
   (\<exists>c. construct_template 3 cyclic_env = Inr c \<and>
        ''output'' \<in> set (map fst (layer_data_templates c)))"
proof -
  have h1: "length (net_dict cyclic_env) < 3" by (simp add: cyclic_env_def)
  have h2: "closed_decl cyclic_env" by (rule cyclic_env_closed)
  have h3: "descriptors_ok cyclic_env" by (simp add: descriptors_ok_def cyclic_env_def)
  have h4: "''output'' \<in> keys cyclic_env" by (simp add: keys_def cyclic_env_def)
  have h5: "''end'' \<notin> keys cyclic_env" by (simp add: keys_def cyclic_env_def)
  from template_construction_ignores_cycles[of cyclic_env 3] h1 h2 h3 h4 h5
  show ?thesis by blast
qed

text \<open>
  Claim C8 as stated fails: on the declaration in which \<open>output\<close> has the source \<open>a\<close> and \<open>a\<close>
  the source \<open>output\<close>, a same-step cycle through \<open>output\<close>, the construction completes
  successfully, with both templates initialised and depending on each other.
\<close>

theorem cyclic_declaration_constructs:
  "map_of (net_dict cyclic_env) ''output'' =
     Some \<lparr>layer_class = ''rnn_cell'', sources = [''a'']\<rparr> \<and>
   map_of (net_dict cyclic_env) ''a'' =
     Some \<lparr>layer_class = ''rnn_cell'', sources = [''output'']\<rparr> \<and>
   construct_template 3 cyclic_env =
     Inr \<lparr>layer_data_templates =
            [(''output'', \<lparr>dependencies = [SubLayer ''a''], initialized = True\<rparr>),
             (''a'', \<lparr>dependencies = [SubLayer ''output''], initialized = True\<rparr>)],
          prev_layers_needed = []\<rparr>"
  using cyclic_run by (simp add: cyclic_env_def)
section \<open>Properties of the choice layer\<close>

lemma top_k_perm:
  "set (rev (sort_key (\<lambda>i. xs ! i) (rev [0..<length xs]))) = {0..<length xs}"
  "distinct (rev (sort_key (\<lambda>i. xs ! i) (rev [0..<length xs])))"
  "length (rev (sort_key (\<lambda>i. xs ! i) (rev [0..<length xs]))) = length xs"
  by simp_all

lemma top_k_indices_props:
  assumes "k \<le> length xs"
  shows "length (top_k_indices k xs) = k"
    and "distinct (top_k_indices k xs)"
    and "\<forall>i\<in>set (top_k_indices k xs). i < length xs"
    and "\<forall>p q. p \<le> q \<and> q < k \<longrightarrow>
           xs ! (top_k_indices k xs ! q) \<le> xs ! (top_k_indices k xs ! p)"
    and "\<forall>j<length xs. j \<notin> set (top_k_indices k xs) \<longrightarrow>
           (\<forall>i\<in>set (top_k_indices k xs). xs ! j \<le> xs ! i)"
proof -
  define S where "S = rev (sort_key (\<lambda>i. xs ! i) (rev [0..<length xs]))"
  have T: "top_k_indices k xs = take k S" by (simp add: top_k_indices_def S_def)
  have setS: "set S = {0..<length xs}" and dS: "distinct S" and lS: "length S = length xs"
    by (simp_all add: S_def)
  have srt: "sorted (rev (map (\<lambda>i. xs ! i) S))"
    by (simp add: S_def rev_map[symmetric])
  have mono: "xs ! (S ! q) \<le> xs ! (S ! p)" if "p \<le> q" "q < length S" for p q
  proof -
    from sorted_rev_nth_mono[OF srt, of p q] that
    have "map (\<lambda>i. xs ! i) S ! q \<le> map (\<lambda>i. xs ! i) S ! p" by simp
    with that show ?thesis by simp
  qed
  show "length (top_k_indices k xs) = k" using assms lS by (simp add: T)
  show "distinct (top_k_indices k xs)" using dS by (simp add: T)
  show "\<forall>i\<in>set (top_k_indices k xs). i < length xs"
    using setS by (auto simp: T dest: in_set_takeD)
  show "\<forall>p q. p \<le> q \<and> q < k \<longrightarrow>
           xs ! (top_k_indices k xs ! q) \<le> xs ! (top_k_indices k xs ! p)"
    using mono assms lS by (auto simp: T)
  show "\<forall>j<length xs. j \<notin> set (top_k_indices k xs) \<longrightarrow>
           (\<forall>i\<in>set (top_k_indices k xs). xs ! j \<le> xs ! i)"
  proof (intro allI impI ballI)
    fix j i assume j: "j < length xs" and nj: "j \<notin> set (top_k_indices k xs)"
      and i: "i \<in> set (top_k_indices k xs)"
    from j setS have "j \<in> set S" by simp
    then obtain q where q: "q < length S" "S ! q = j"
      by (auto simp: in_set_conv_nth)
    from i obtain p where p: "p < k" "p < length S" "S ! p = i"
      by (auto simp: T in_set_conv_nth)
    have "\<not> q < k"
    proof
      assume "q < k"
      with q have "j \<in> set (take k S)" by (auto simp: in_set_conv_nth intro!: exI[of _ q])
      with nj show False by (simp add: T)
    qed
    with p have "p \<le> q" by simp
    from mono[OF this q(1)] q p show "xs ! j \<le> xs ! i" by simp
  qed
qed

lemma concat_length_uniform:
  "\<forall>ys\<in>set yss. length ys = k \<Longrightarrow> length (concat yss) = length yss * k"
  by (induction yss) simp_all

lemma concat_nth_uniform:
  "\<forall>ys\<in>set yss. length ys = k \<Longrightarrow> b < length yss \<Longrightarrow> i < k \<Longrightarrow>
   concat yss ! (b * k + i) = yss ! b ! i"
proof (induction yss arbitrary: b)
  case Nil
  then show ?case by simp
next
  case (Cons ys yss)
  show ?case
  proof (cases b)
    case 0
    with Cons.prems show ?thesis by (simp add: nth_append)
  next
    case (Suc b')
    with Cons.prems have "concat yss ! (b' * k + i) = yss ! b' ! i"
      by (intro Cons.IH) auto
    moreover from Cons.prems have "length ys = k" by simp
    ultimately show ?thesis using Suc by (simp add: nth_append)
  qed
qed

lemma rows_of_bound:
  assumes "b < m"
  shows "b * n + n \<le> m * (n::nat)"
proof -
  from assms have "Suc b \<le> m" by simp
  then have "Suc b * n \<le> m * n" by (rule mult_le_mono1)
  then show ?thesis by simp
qed

lemma rows_of_length:
  "length xs = m * n \<Longrightarrow> b < m \<Longrightarrow> length (rows_of m n xs ! b) = n"
  using rows_of_bound[of b m n] by (simp add: rows_of_def)

lemma rows_of_nth:
  "length xs = m * n \<Longrightarrow> b < m \<Longrightarrow> i < n \<Longrightarrow> rows_of m n xs ! b ! i = xs ! (b * n + i)"
  using rows_of_bound[of b m n] by (simp add: rows_of_def)

lemma rows_of_candidates:
  fixes scores_in scores_base :: "('a::plus) tensor"
  shows "rows_of B (beam_in * D)
     (map (\<lambda>n. lg (flat scores_in ! n) + flat scores_base ! (n div D)) [0..<B * (beam_in * D)]) =
   map (flat_candidates lg beam_in D scores_in scores_base) [0..<B]"
proof (rule nth_equalityI)
  show "length (rows_of B (beam_in * D)
     (map (\<lambda>n. lg (flat scores_in ! n) + flat scores_base ! (n div D)) [0..<B * (beam_in * D)])) =
     length (map (flat_candidates lg beam_in D scores_in scores_base) [0..<B])"
    by (simp add: rows_of_def)
next
  fix b
  let ?c = "map (\<lambda>n. lg (flat scores_in ! n) + flat scores_base ! (n div D)) [0..<B * (beam_in * D)]"
  assume "b < length (rows_of B (beam_in * D) ?c)"
  then have b: "b < B" by (simp add: rows_of_def)
  have lc: "length ?c = B * (beam_in * D)" by simp
  show "rows_of B (beam_in * D) ?c ! b =
        map (flat_candidates lg beam_in D scores_in scores_base) [0..<B] ! b"
  proof (rule nth_equalityI)
    show "length (rows_of B (beam_in * D) ?c ! b) =
          length (map (flat_candidates lg beam_in D scores_in scores_base) [0..<B] ! b)"
      using rows_of_length[OF lc b] b by (simp add: flat_candidates_def)
  next
    fix i assume "i < length (rows_of B (beam_in * D) ?c ! b)"
    then have i: "i < beam_in * D" using rows_of_length[OF lc b] by simp
    then have D: "0 < D" by (cases D) simp_all
    have le: "b * (beam_in * D) + i < B * (beam_in * D)"
    proof -
      from b have "Suc b * (beam_in * D) \<le> B * (beam_in * D)"
        by (intro mult_le_mono1) simp
      with i show ?thesis by simp
    qed
    have e1: "(b * beam_in + i div D) * D + i mod D = b * (beam_in * D) + i"
      by (simp add: algebra_simps)
    have e2: "(b * (beam_in * D) + i) div D = b * beam_in + i div D"
    proof -
      have "b * (beam_in * D) + i = i + (b * beam_in) * D" by simp
      then show ?thesis using D by (simp only: div_mult_self3) simp
    qed
    have "rows_of B (beam_in * D) ?c ! b ! i = ?c ! (b * (beam_in * D) + i)"
      by (rule rows_of_nth[OF lc b i])
    also have "\<dots> = lg (flat scores_in ! (b * (beam_in * D) + i)) +
        flat scores_base ! ((b * (beam_in * D) + i) div D)"
      using le by simp
    also have "\<dots> = flat_candidates lg beam_in D scores_in scores_base b ! i"
      using i by (simp add: flat_candidates_def candidate_def e1 e2)
    finally show "rows_of B (beam_in * D) ?c ! b ! i =
        map (flat_candidates lg beam_in D scores_in scores_base) [0..<B] ! b ! i"
      using b by simp
  qed
qed

lemma choice_layer_search_eval:
  fixes scores_in scores_base :: "('a::{plus,linorder}) tensor"
  assumes it: "itype = Prob \<or> itype = LogProb"
    and sb: "shape scores_base = [B, beam_in]" "length (flat scores_base) = B * beam_in"
    and si: "length (flat scores_in) = B * beam_in * D"
    and k: "K \<le> beam_in * D"
  shows "choice_layer_search tf_log K itype B D (Some scores_base) scores_in =
     Inr \<lparr>src_beams = Some \<lparr>shape = [B, K],
            flat = map (\<lambda>l. l div D)
              (concat (map (top_k_indices K)
                 (map (flat_candidates (score_fn itype tf_log) beam_in D scores_in scores_base) [0..<B])))\<rparr>,
          beam_scores = Some \<lparr>shape = [B, K],
            flat = concat (map (\<lambda>row. map (\<lambda>i. row ! i) (top_k_indices K row))
                 (map (flat_candidates (score_fn itype tf_log) beam_in D scores_in scores_base) [0..<B]))\<rparr>,
          choice_output = Labels \<lparr>shape = [B * K],
            flat = map (\<lambda>l. l mod D)
              (concat (map (top_k_indices K)
                 (map (flat_candidates (score_fn itype tf_log) beam_in D scores_in scores_base) [0..<B])))\<rparr>\<rparr>"
proof -
  let ?lg = "score_fn itype tf_log"
  let ?R = "map (flat_candidates ?lg beam_in D scores_in scores_base) [0..<B]"
  define s1 where "s1 = (if itype = Prob then scores_in\<lparr>flat := map tf_log (flat scores_in)\<rparr> else scores_in)"
  have s1f: "length (flat s1) = B * beam_in * D" using si by (simp add: s1_def)
  have s1n: "\<forall>n<B * beam_in * D. flat s1 ! n = ?lg (flat scores_in ! n)"
    using si by (simp add: s1_def score_fn_def)
  have r1: "tf_reshape [B, beam_in, D] s1 = Inr \<lparr>shape = [B, beam_in, D], flat = flat s1\<rparr>"
    using s1f by (simp add: tf_reshape_def mult.assoc)
  let ?c = "map (\<lambda>n. ?lg (flat scores_in ! n) + flat scores_base ! (n div D)) [0..<B * (beam_in * D)]"
  have c_eq: "map (\<lambda>n. flat s1 ! n + flat scores_base ! (n div D)) [0..<length (flat s1)] = ?c"
    using s1f s1n by (simp add: mult.assoc)
  have ad: "add_broadcast_last \<lparr>shape = [B, beam_in, D], flat = flat s1\<rparr> (expand_dims_last scores_base) =
      Inr \<lparr>shape = [B, beam_in, D], flat = ?c\<rparr>"
    using sb s1f c_eq by (simp add: add_broadcast_last_def expand_dims_last_def mult.assoc)
  have r2: "tf_reshape [B, beam_in * D] \<lparr>shape = [B, beam_in, D], flat = ?c\<rparr> =
      Inr \<lparr>shape = [B, beam_in * D], flat = ?c\<rparr>"
    by (simp add: tf_reshape_def)
  have tk: "top_k \<lparr>shape = [B, beam_in * D], flat = ?c\<rparr> K =
      Inr (\<lparr>shape = [B, K], flat = concat (map (\<lambda>row. map (\<lambda>i. row ! i) (top_k_indices K row)) ?R)\<rparr>,
           \<lparr>shape = [B, K], flat = concat (map (top_k_indices K) ?R)\<rparr>)"
    using k by (simp add: top_k_def rows_of_candidates)
  have lenL: "length (concat (map (top_k_indices K) ?R)) = B * K"
  proof -
    have "\<forall>ys\<in>set (map (top_k_indices K) ?R). length ys = K"
      using k by (auto simp: flat_candidates_def intro!: top_k_indices_props(1))
    from concat_length_uniform[OF this] show ?thesis by simp
  qed
  have r3: "tf_reshape [B * K] \<lparr>shape = [B, K], flat = map (\<lambda>l. l mod D) (concat (map (top_k_indices K) ?R))\<rparr> =
      Inr \<lparr>shape = [B * K], flat = map (\<lambda>l. l mod D) (concat (map (top_k_indices K) ?R))\<rparr>"
    using lenL by (simp add: tf_reshape_def)
  have pre: "(if itype = Prob then Inr (scores_in\<lparr>flat := map tf_log (flat scores_in)\<rparr>)
              else if itype = LogProb then Inr scores_in else Inl Exception) = Inr s1"
    using it by (auto simp: s1_def)
  have nr: "itype \<noteq> Regression" using it by auto
  have as: "assert (length (shape scores_base) = 2) = Inr ()" using sb(1) by (simp add: assert_def)
  have b1: "shape scores_base ! 1 = beam_in" using sb(1) by simp
  show ?thesis
    unfolding choice_layer_search_def
    by (simp only: nr if_False option.case as bind_err_Inr Let_def b1 pre r1 ad r2 tk prod.case
        tensor.update_convs tensor.select_convs r3)
qed

text \<open>
  Claim C1, as amended. For a choice layer in search mode whose input type is \<open>prob\<close> or
  \<open>log_prob\<close>, with source beam scores of shape (batch, beam_in), an input of batch * beam_in
  rows of \<open>D\<close> scores and a beam size \<open>K\<close> of at most \<open>beam_in * D\<close>: the layer is built; the
  candidate scores are the input scores (their logarithm for \<open>prob\<close>) added to the accumulated
  score of their incoming slot; per example the candidates are flattened over slot and value
  and \<open>K\<close> distinct flattened indices \<open>sel b 0, ..., sel b (K - 1)\<close> are selected, in order of
  decreasing score, every candidate that is not selected scoring at most as much as every
  selected one; the source beam recorded for a retained slot is its flattened index divided by
  \<open>D\<close>, its output is the flattened index modulo \<open>D\<close>, and its beam score is the candidate
  score of that slot and value.
\<close>

theorem choice_layer_selects_top_k:
  fixes scores_in scores_base :: "('a::{plus,linorder}) tensor"
  assumes it: "itype = Prob \<or> itype = LogProb"
    and sb: "shape scores_base = [B, beam_in]" "length (flat scores_base) = B * beam_in"
    and si: "length (flat scores_in) = B * beam_in * D"
    and k: "K \<le> beam_in * D"
  shows "\<exists>beams scores labels sel.
     choice_layer_search tf_log K itype B D (Some scores_base) scores_in =
       Inr \<lparr>src_beams = Some beams, beam_scores = Some scores, choice_output = Labels labels\<rparr> \<and>
     shape beams = [B, K] \<and> shape scores = [B, K] \<and> shape labels = [B * K] \<and>
     (\<forall>b<B. \<forall>k<K.
        sel b k < beam_in * D \<and>
        flat beams ! (b * K + k) = sel b k div D \<and>
        flat labels ! (b * K + k) = sel b k mod D \<and>
        flat scores ! (b * K + k) =
          flat_candidates (score_fn itype tf_log) beam_in D scores_in scores_base b ! sel b k \<and>
        flat scores ! (b * K + k) =
          candidate (score_fn itype tf_log) beam_in D scores_in scores_base b
            (flat beams ! (b * K + k)) (flat labels ! (b * K + k))) \<and>
     (\<forall>b<B. \<forall>k<K. \<forall>k'<K. k < k' \<longrightarrow>
        sel b k \<noteq> sel b k' \<and> flat scores ! (b * K + k') \<le> flat scores ! (b * K + k)) \<and>
     (\<forall>b<B. \<forall>i<beam_in * D. (\<forall>k<K. sel b k \<noteq> i) \<longrightarrow>
        (\<forall>k<K. flat_candidates (score_fn itype tf_log) beam_in D scores_in scores_base b ! i
                 \<le> flat scores ! (b * K + k)))"
proof -
  let ?lg = "score_fn itype tf_log"
  let ?row = "flat_candidates ?lg beam_in D scores_in scores_base"
  let ?R = "map ?row [0..<B]"
  define L where "L = concat (map (top_k_indices K) ?R)"
  define V where "V = concat (map (\<lambda>row. map (\<lambda>i. row ! i) (top_k_indices K row)) ?R)"
  define sel where "sel = (\<lambda>b k. top_k_indices K (?row b) ! k)"
  have lrow: "length (?row b) = beam_in * D" for b by (simp add: flat_candidates_def)
  note tp = top_k_indices_props[of K "?row b" for b, unfolded lrow, OF k]
  have uniL: "\<forall>ys\<in>set (map (top_k_indices K) ?R). length ys = K"
    using tp(1) by auto
  have uniV: "\<forall>ys\<in>set (map (\<lambda>row. map (\<lambda>i. row ! i) (top_k_indices K row)) ?R). length ys = K"
    using tp(1) by auto
  have Ln: "L ! (b * K + j) = sel b j" if "b < B" "j < K" for b j
    using concat_nth_uniform[OF uniL, of b j] that by (simp add: L_def sel_def)
  have Vn: "V ! (b * K + j) = ?row b ! sel b j" if "b < B" "j < K" for b j
    using concat_nth_uniform[OF uniV, of b j] that tp(1)[of b] by (simp add: V_def sel_def)
  have lenL: "length L = B * K" using concat_length_uniform[OF uniL] by (simp add: L_def)
  have bk: "b * K + j < B * K" if "b < B" "j < K" for b j
    using rows_of_bound[OF that(1), of K] that(2) by simp
  have sel_lt: "sel b j < beam_in * D" if "j < K" for b j
    using tp(3)[of b] tp(1)[of b] that by (simp add: sel_def)
  have ev: "choice_layer_search tf_log K itype B D (Some scores_base) scores_in =
       Inr \<lparr>src_beams = Some \<lparr>shape = [B, K], flat = map (\<lambda>l. l div D) L\<rparr>,
            beam_scores = Some \<lparr>shape = [B, K], flat = V\<rparr>,
            choice_output = Labels \<lparr>shape = [B * K], flat = map (\<lambda>l. l mod D) L\<rparr>\<rparr>"
    unfolding L_def V_def by (rule choice_layer_search_eval[OF it sb si k])
  have p1: "\<forall>b<B. \<forall>j<K.
        sel b j < beam_in * D \<and>
        map (\<lambda>l. l div D) L ! (b * K + j) = sel b j div D \<and>
        map (\<lambda>l. l mod D) L ! (b * K + j) = sel b j mod D \<and>
        V ! (b * K + j) = ?row b ! sel b j \<and>
        V ! (b * K + j) = candidate ?lg beam_in D scores_in scores_base b
            (map (\<lambda>l. l div D) L ! (b * K + j)) (map (\<lambda>l. l mod D) L ! (b * K + j))"
  proof (intro allI impI)
    fix b j assume b: "b < B" and j: "j < K"
    have "?row b ! sel b j =
        candidate ?lg beam_in D scores_in scores_base b (sel b j div D) (sel b j mod D)"
      using sel_lt[OF j, of b] by (simp add: flat_candidates_def)
    with Ln[OF b j] Vn[OF b j] bk[OF b j] lenL sel_lt[OF j, of b]
    show "sel b j < beam_in * D \<and>
        map (\<lambda>l. l div D) L ! (b * K + j) = sel b j div D \<and>
        map (\<lambda>l. l mod D) L ! (b * K + j) = sel b j mod D \<and>
        V ! (b * K + j) = ?row b ! sel b j \<and>
        V ! (b * K + j) = candidate ?lg beam_in D scores_in scores_base b
            (map (\<lambda>l. l div D) L ! (b * K + j)) (map (\<lambda>l. l mod D) L ! (b * K + j))"
      by simp
  qed
  have p2: "\<forall>b<B. \<forall>j<K. \<forall>j'<K. j < j' \<longrightarrow>
        sel b j \<noteq> sel b j' \<and> V ! (b * K + j') \<le> V ! (b * K + j)"
  proof (intro allI impI)
    fix b j j' assume b: "b < B" and j: "j < K" and j': "j' < K" and lt: "j < j'"
    from tp(2)[of b] tp(1)[of b] j j' lt have "sel b j \<noteq> sel b j'"
      by (auto simp: sel_def distinct_conv_nth)
    moreover from tp(4)[of b] j' lt have "?row b ! sel b j' \<le> ?row b ! sel b j"
      by (simp add: sel_def)
    ultimately show "sel b j \<noteq> sel b j' \<and> V ! (b * K + j') \<le> V ! (b * K + j)"
      using Vn[OF b j] Vn[OF b j'] by simp
  qed
  have p3: "\<forall>b<B. \<forall>i<beam_in * D. (\<forall>j<K. sel b j \<noteq> i) \<longrightarrow>
        (\<forall>j<K. ?row b ! i \<le> V ! (b * K + j))"
  proof (intro allI impI)
    fix b i j assume b: "b < B" and i: "i < beam_in * D" and ns: "\<forall>j<K. sel b j \<noteq> i"
      and j: "j < K"
    from ns tp(1)[of b] have "i \<notin> set (top_k_indices K (?row b))"
      by (auto simp: sel_def in_set_conv_nth)
    with tp(5)[of b] i have "\<forall>m\<in>set (top_k_indices K (?row b)). ?row b ! i \<le> ?row b ! m"
      by blast
    moreover from j tp(1)[of b] have "sel b j \<in> set (top_k_indices K (?row b))"
      by (simp add: sel_def)
    ultimately show "?row b ! i \<le> V ! (b * K + j)" using Vn[OF b j] by simp
  qed
  show ?thesis
    by (rule exI[of _ "\<lparr>shape = [B, K], flat = map (\<lambda>l. l div D) L\<rparr>"],
        rule exI[of _ "\<lparr>shape = [B, K], flat = V\<rparr>"],
        rule exI[of _ "\<lparr>shape = [B * K], flat = map (\<lambda>l. l mod D) L\<rparr>"],
        rule exI[of _ sel], unfold tensor.select_convs, intro conjI ev refl p1 p2 p3)
qed

lemma example_choice:
  "choice_layer_search example_log 2 LogProb 1 3 (Some example_scores_base) example_scores_in =
     Inr \<lparr>src_beams = Some \<lparr>shape = [1, 2], flat = [1, 0]\<rparr>,
          beam_scores = Some \<lparr>shape = [1, 2], flat = [- 1, - 2]\<rparr>,
          choice_output = Labels \<lparr>shape = [2], flat = [0, 1]\<rparr>\<rparr>"
  by (simp add: choice_layer_search_def example_scores_base_def example_scores_in_def assert_def
      expand_dims_last_def tf_reshape_def add_broadcast_last_def top_k_def rows_of_def
      top_k_indices_def Let_def upt_rec[of 0] upt_rec[of 1] upt_rec[of 2] upt_rec[of 3] upt_rec[of 4] upt_rec[of 5])

theorem choice_layer_selects_top_k_witness:
  "(LogProb = Prob \<or> LogProb = LogProb) \<and>
   shape example_scores_base = [1, 2] \<and> length (flat example_scores_base) = 1 * 2 \<and>
   length (flat example_scores_in) = 1 * 2 * 3 \<and> (2::nat) \<le> 2 * 3 \<and>
   choice_layer_search example_log 2 LogProb 1 3 (Some example_scores_base) example_scores_in =
     Inr \<lparr>src_beams = Some \<lparr>shape = [1, 2], flat = [1, 0]\<rparr>,
          beam_scores = Some \<lparr>shape = [1, 2], flat = [- 1, - 2]\<rparr>,
          choice_output = Labels \<lparr>shape = [2], flat = [0, 1]\<rparr>\<rparr> \<and>
   candidate (score_fn LogProb example_log) 2 3 example_scores_in example_scores_base 0 1 0 = - 1 \<and>
   candidate (score_fn LogProb example_log) 2 3 example_scores_in example_scores_base 0 0 1 = - 2"
proof -
  have h1: "LogProb = Prob \<or> LogProb = LogProb" by simp
  have h2: "shape example_scores_base = [1, 2]" by (simp add: example_scores_base_def)
  have h3: "length (flat example_scores_base) = 1 * 2" by (simp add: example_scores_base_def)
  have h4: "length (flat example_scores_in) = 1 * 2 * 3" by (simp add: example_scores_in_def)
  have h5: "(2::nat) \<le> 2 * 3" by simp
  from choice_layer_selects_top_k[OF h1 h2 h3 h4 h5, of example_log]
  obtain beams scores labels sel where
    ev: "choice_layer_search example_log 2 LogProb 1 3 (Some example_scores_base) example_scores_in =
       Inr \<lparr>src_beams = Some beams, beam_scores = Some scores, choice_output = Labels labels\<rparr>"
    and c: "\<forall>b<1. \<forall>k<2.
        sel b k < 2 * 3 \<and>
        flat beams ! (b * 2 + k) = sel b k div 3 \<and>
        flat labels ! (b * 2 + k) = sel b k mod 3 \<and>
        flat scores ! (b * 2 + k) =
          flat_candidates (score_fn LogProb example_log) 2 3 example_scores_in example_scores_base b ! sel b k \<and>
        flat scores ! (b * 2 + k) =
          candidate (score_fn LogProb example_log) 2 3 example_scores_in example_scores_base b
            (flat beams ! (b * 2 + k)) (flat labels ! (b * 2 + k))"
    by (elim exE conjE) (rule that)
  from ev have "Inr \<lparr>src_beams = Some beams, beam_scores = Some scores, choice_output = Labels labels\<rparr> =
      (Inr \<lparr>src_beams = Some \<lparr>shape = [1, 2], flat = [1, 0]\<rparr>,
          beam_scores = Some \<lparr>shape = [1, 2], flat = [- 1, - 2]\<rparr>,
          choice_output = Labels \<lparr>shape = [2], flat = [0, 1]\<rparr>\<rparr> :: error + int choice_result)"
    by (simp only: example_choice)
  then have e: "beams = \<lparr>shape = [1, 2], flat = [1, 0]\<rparr>"
    "scores = \<lparr>shape = [1, 2], flat = [- 1, - 2]\<rparr>" "labels = \<lparr>shape = [2], flat = [0, 1]\<rparr>"
    by simp_all
  have l0: "(0::nat) < 1" and l1: "(0::nat) < 2" and l2: "(1::nat) < 2" by simp_all
  from c[rule_format, OF l0 l1]
  have "flat scores ! (0 * 2 + 0) =
          candidate (score_fn LogProb example_log) 2 3 example_scores_in example_scores_base 0
            (flat beams ! (0 * 2 + 0)) (flat labels ! (0 * 2 + 0))"
    by (elim conjE)
  then have c0: "candidate (score_fn LogProb example_log) 2 3 example_scores_in example_scores_base 0 1 0 = - 1"
    by (simp add: e)
  from c[rule_format, OF l0 l2]
  have "flat scores ! (0 * 2 + 1) =
          candidate (score_fn LogProb example_log) 2 3 example_scores_in example_scores_base 0
            (flat beams ! (0 * 2 + 1)) (flat labels ! (0 * 2 + 1))"
    by (elim conjE)
  then have c1: "candidate (score_fn LogProb example_log) 2 3 example_scores_in example_scores_base 0 0 1 = - 2"
    by (simp add: e)
  show ?thesis by (intro conjI h1 h2 h3 h4 h5 example_choice c0 c1)
qed

text \<open>
  Claim C1 as stated fails for a choice point whose beam width exceeds the number of
  candidates: with one example, two incoming beam slots and three values there are six
  candidates, and for the beam width 7 \<open>tf.nn.top_k\<close> fails, so that no slot is selected and
  no parent slot or value is recorded.
\<close>

theorem too_wide_beam_selects_nothing:
  "shape example_scores_base = [1, 2] \<and> length (flat example_scores_base) = 1 * 2 \<and>
   length (flat example_scores_in) = 1 * 2 * 3 \<and> (2::nat) * 3 < 7 \<and>
   choice_layer_search example_log 7 LogProb 1 3 (Some example_scores_base) example_scores_in =
     Inl InvalidArgumentError"
  by (simp add: choice_layer_search_def example_scores_base_def example_scores_in_def assert_def
      expand_dims_last_def tf_reshape_def add_broadcast_last_def top_k_def bind_err_def Let_def)

section \<open>Properties of the backward resolution\<close>

lemma matrix_of_length [simp]: "length (matrix_of m n f) = m"
  by (simp add: matrix_of_def)

lemma matrix_of_nth [simp]: "b < m \<Longrightarrow> matrix_of m n f ! b = map (f b) [0..<n]"
  by (simp add: matrix_of_def)

lemma matrix_of_cong:
  "(\<And>b h. b < m \<Longrightarrow> h < n \<Longrightarrow> f b h = g b h) \<Longrightarrow> matrix_of m n f = matrix_of m n g"
  by (simp add: matrix_of_def)

lemma nd_indices_matrix_of:
  "nd_indices (matrix_of m n f) = matrix_of m n (\<lambda>b h. (b, f b h))"
  by (simp add: nd_indices_def matrix_of_def)

lemma gather_nd_matrix_of:
  assumes "m \<le> length params" "\<And>b h. b < m \<Longrightarrow> h < n \<Longrightarrow> f b h < length (params ! b)"
  shows "gather_nd params (matrix_of m n (\<lambda>b h. (b, f b h))) =
    Inr (matrix_of m n (\<lambda>b h. params ! b ! f b h))"
  using assms by (auto simp: gather_nd_def matrix_of_def list_all_iff)

lemma beams_recorded_read:
  assumes "beams_recorded d n m w v nm" "i < n"
  shows "\<exists>ta. lookup (choice_tas d) (''choice_'' @ nm) = Inr ta \<and>
           ta_read i ta = Inr (recorded_beams d nm i)"
    and "length (recorded_beams d nm i) = m"
    and "\<And>b. b < m \<Longrightarrow> length (recorded_beams d nm i ! b) = w"
    and "\<And>b s. b < m \<Longrightarrow> s < w \<Longrightarrow> recorded_beams d nm i ! b ! s < v"
  using assms
  by (auto simp: beams_recorded_def recorded_beams_def lookup_def ta_read_def list_all_length
      split: option.splits)

lemma read_src_choice_beams_matrix:
  assumes r: "beams_recorded d n m w v nm" and i: "i < n"
    and f: "\<And>b h. b < m \<Longrightarrow> h < k \<Longrightarrow> f b h < w"
  shows "read_src_choice_beams d i nm (nd_indices (matrix_of m k f)) =
    Inr (matrix_of m k (\<lambda>b h. recorded_beams d nm i ! b ! f b h))"
proof -
  from beams_recorded_read(1)[OF r i] obtain ta where
    l: "lookup (choice_tas d) (''choice_'' @ nm) = Inr ta"
    and rd: "ta_read i ta = Inr (recorded_beams d nm i)" by blast
  have g: "gather_nd (recorded_beams d nm i) (matrix_of m k (\<lambda>b h. (b, f b h))) =
      Inr (matrix_of m k (\<lambda>b h. recorded_beams d nm i ! b ! f b h))"
  proof (rule gather_nd_matrix_of)
    show "m \<le> length (recorded_beams d nm i)"
      using beams_recorded_read(2)[OF r i] by simp
  next
    fix b h assume "b < m" "h < k"
    then show "f b h < length (recorded_beams d nm i ! b)"
      using beams_recorded_read(3)[OF r i, of b] f[of b h] by simp
  qed
  from l rd g show ?thesis
    by (simp add: read_src_choice_beams_def nd_indices_matrix_of)
qed

lemma concat_matrix_of_length: "length (concat (matrix_of m k f)) = m * k"
proof -
  have "\<forall>ys\<in>set (matrix_of m k f). length ys = k" by (auto simp: matrix_of_def)
  from concat_length_uniform[OF this] show ?thesis by simp
qed

lemma concat_matrix_of_nth:
  assumes "b < m" "h < k"
  shows "concat (matrix_of m k f) ! (b * k + h) = f b h"
proof -
  have "\<forall>ys\<in>set (matrix_of m k f). length ys = k" by (auto simp: matrix_of_def)
  from concat_nth_uniform[OF this, of b h] assms show ?thesis by simp
qed

lemma resolve_output_matrix:
  assumes o: "output_recorded d n (m * k)" and i: "i < n"
    and f: "\<And>b h. b < m \<Longrightarrow> h < k \<Longrightarrow> f b h < k"
    and t: "i < length (slots ta)" "slots ta ! i = None"
  shows "resolve_output d m k i (nd_indices (matrix_of m k f)) ta =
    Inr (ta\<lparr>slots := (slots ta)
      [i := Some (concat (matrix_of m k (\<lambda>b h. raw_output d i ! (b * k + f b h))))]\<rparr>)"
proof -
  let ?out = "raw_output d i"
  from o i have rd: "ta_read i (output_output d) = Inr ?out" and len: "length ?out = m * k"
    by (auto simp: output_recorded_def raw_output_def ta_read_def list_all_length
        split: option.splits)
  have rs: "reshape_batch_beam m k ?out = Inr (rows_of m k ?out)"
    by (simp add: reshape_batch_beam_def len)
  have g0: "gather_nd (rows_of m k ?out) (matrix_of m k (\<lambda>b h. (b, f b h))) =
      Inr (matrix_of m k (\<lambda>b h. rows_of m k ?out ! b ! f b h))"
  proof (rule gather_nd_matrix_of)
    show "m \<le> length (rows_of m k ?out)" by (simp add: rows_of_def)
  next
    fix b h assume "b < m" "h < k"
    then show "f b h < length (rows_of m k ?out ! b)"
      using rows_of_length[OF len, of b] f[of b h] by simp
  qed
  have eq: "matrix_of m k (\<lambda>b h. rows_of m k ?out ! b ! f b h) =
      matrix_of m k (\<lambda>b h. ?out ! (b * k + f b h))"
    by (rule matrix_of_cong) (simp add: rows_of_nth[OF len] f)
  have rr: "reshape_rows (m * k) (matrix_of m k (\<lambda>b h. ?out ! (b * k + f b h))) =
      Inr (concat (matrix_of m k (\<lambda>b h. ?out ! (b * k + f b h))))"
    by (simp add: reshape_rows_def concat_matrix_of_length)
  have w: "ta_write i v ta = Inr (ta\<lparr>slots := (slots ta)[i := Some v]\<rparr>)" for v
    using t by (simp add: ta_write_def)
  show ?thesis
    by (simp add: resolve_output_def rd rs nd_indices_matrix_of g0 eq rr w)
qed

lemma resolve_choices_chain:
  "chain_recorded d n m K c \<Longrightarrow> i < n \<Longrightarrow>
   (\<And>b h. b < m \<Longrightarrow> h < k \<Longrightarrow> f b h < beam_of c) \<Longrightarrow>
   cb = matrix_of m k f \<Longrightarrow>
   (is_out \<longrightarrow> resolve_output d nb beam i (nd_indices cb) ta = Inr ta_w) \<Longrightarrow>
   resolve_choices d nb beam i c is_out cb ta =
     Inr (matrix_of m k (\<lambda>b h. parent_slot d i c b (f b h)), if is_out then ta_w else ta) \<and>
   (\<forall>b<m. \<forall>h<k. parent_slot d i c b (f b h) < K)"
proof (induction d nb beam i c is_out cb ta arbitrary: f ta_w rule: resolve_choices.induct)
  case (1 d nb beam i nm in_net choices is_out cb ta)
  let ?g = "\<lambda>b h. recorded_beams d nm i ! b ! f b h"
  from "1.prems"(1) have in_net: in_net by simp
  from "1.prems"(1) obtain bs src where ch: "choices = Some (SearchChoices bs src)"
    by (cases choices) (auto split: base_choices.splits)
  have bo: "beam_of (LayerBase nm in_net choices) = bs" by (simp add: beam_of_def ch)
  have fb: "\<And>b h. b < m \<Longrightarrow> h < k \<Longrightarrow> f b h < bs"
    using "1.prems"(3) bo by simp
  have out: "(if is_out then resolve_output d nb beam i (nd_indices cb) ta else Inr ta) =
      Inr (if is_out then ta_w else ta)"
    using "1.prems"(5) by simp
  show ?case
  proof (cases src)
    case NoLayer
    with "1.prems"(1) ch show ?thesis by simp
  next
    case (TemplateLayer prev)
    with "1.prems"(1) ch have prev: prev and r: "beams_recorded d n m bs K nm" by simp_all
    have rd: "read_src_choice_beams d i nm (nd_indices cb) = Inr (matrix_of m k ?g)"
      unfolding "1.prems"(4) by (rule read_src_choice_beams_matrix[OF r "1.prems"(2) fb])
    have bound: "\<forall>b<m. \<forall>h<k. ?g b h < K"
      using beams_recorded_read(4)[OF r "1.prems"(2)] fb by simp
    have "resolve_choices d nb beam i (LayerBase nm in_net choices) is_out cb ta =
        Inr (matrix_of m k ?g, if is_out then ta_w else ta)"
      by (simp add: in_net assert_def rd out ch TemplateLayer prev)
    with bound show ?thesis by (simp add: ch TemplateLayer)
  next
    case (Layer c')
    with "1.prems"(1) ch have r: "beams_recorded d n m bs (beam_of c') nm"
      and cr: "chain_recorded d n m K c'" by simp_all
    have rd: "read_src_choice_beams d i nm (nd_indices cb) = Inr (matrix_of m k ?g)"
      unfolding "1.prems"(4) by (rule read_src_choice_beams_matrix[OF r "1.prems"(2) fb])
    have gb: "\<And>b h. b < m \<Longrightarrow> h < k \<Longrightarrow> ?g b h < beam_of c'"
      using beams_recorded_read(4)[OF r "1.prems"(2)] fb by simp
    have ih: "resolve_choices d nb beam i c' False (matrix_of m k ?g) (if is_out then ta_w else ta) =
        Inr (matrix_of m k (\<lambda>b h. parent_slot d i c' b (?g b h)),
             if False then ta_w else (if is_out then ta_w else ta)) \<and>
        (\<forall>b<m. \<forall>h<k. parent_slot d i c' b (?g b h) < K)"
    proof (rule "1.IH"[OF ch refl Layer cr "1.prems"(2) gb refl])
      show "False \<longrightarrow> resolve_output d nb beam i (nd_indices (matrix_of m k ?g))
          (if is_out then ta_w else ta) = Inr ta_w" by simp
    qed
    have "resolve_choices d nb beam i (LayerBase nm in_net choices) is_out cb ta =
        resolve_choices d nb beam i c' False (matrix_of m k ?g) (if is_out then ta_w else ta)"
      by (simp add: in_net assert_def rd out ch Layer)
    with ih show ?thesis by (simp add: ch Layer)
  qed
qed

lemma parent_slot_bound:
  assumes cr: "chain_recorded d n m K c" and i: "i < n" and b: "b < m" and s: "s < beam_of c"
  shows "parent_slot d i c b s < K"
proof -
  have "resolve_choices d 0 0 i c False (matrix_of m (Suc 0) (\<lambda>b' h'. s))
        (TensorArray 0 False :: 'a list tensor_array) =
      Inr (matrix_of m (Suc 0) (\<lambda>b' h'. parent_slot d i c b' ((\<lambda>b' h'. s) b' h')),
           if False then TensorArray 0 False else TensorArray 0 False) \<and>
      (\<forall>b'<m. \<forall>h'<Suc 0. parent_slot d i c b' ((\<lambda>b' h'. s) b' h') < K)"
  proof (rule resolve_choices_chain[OF cr i _ refl])
    show "\<And>b' h'. b' < m \<Longrightarrow> h' < Suc 0 \<Longrightarrow> (\<lambda>b' h'. s) b' h' < beam_of c"
      using s by simp
    show "False \<longrightarrow> resolve_output d 0 0 i (nd_indices (matrix_of m (Suc 0) (\<lambda>b' h'. s)))
      (TensorArray 0 False) = Inr (TensorArray 0 False :: 'a list tensor_array)" by simp
  qed
  with b show ?thesis by simp
qed

lemma tracked_slot_bound:
  assumes cr: "chain_recorded d n m K base" and bo: "beam_of base = K"
  shows "j \<le> n \<Longrightarrow> b < m \<Longrightarrow> h < K \<Longrightarrow> tracked_slot d base (n - 1) j b h < K"
proof (induction j)
  case 0
  then show ?case by simp
next
  case (Suc j)
  then have i: "n - 1 - j < n" and ih: "tracked_slot d base (n - 1) j b h < K" by simp_all
  from parent_slot_bound[OF cr i Suc.prems(2)] ih bo show ?case by simp
qed

lemma search_resolve_loop_stop:
  "fst vars < 0 \<Longrightarrow> search_resolve_loop d nb beam base vars = Inr vars"
  by (subst search_resolve_loop.simps) simp

lemma search_resolve_loop_step:
  "0 \<le> fst vars \<Longrightarrow> search_resolve_body d nb beam base vars = Inr vars' \<Longrightarrow>
   search_resolve_loop d nb beam base vars = search_resolve_loop d nb beam base vars'"
  by (subst search_resolve_loop.simps) simp

lemma search_resolve_loop_ok:
  assumes cr: "chain_recorded d n B K base" and bo: "beam_of base = K"
    and o: "output_recorded d n (B * K)"
  shows "j \<le> n \<Longrightarrow> length (slots ta) = n \<Longrightarrow> (\<forall>i<j. slots ta ! i = None) \<Longrightarrow>
    \<exists>cbf ta'. search_resolve_loop d B K base
        (int j - 1, matrix_of B K (tracked_slot d base (n - 1) (n - j)), ta) = Inr (- 1, cbf, ta') \<and>
      length (slots ta') = n \<and> (\<forall>i<n. j \<le> i \<longrightarrow> slots ta' ! i = slots ta ! i) \<and>
      (\<forall>i<j. slots ta' ! i = Some (concat (matrix_of B K
          (\<lambda>b h. raw_output d i ! (b * K + tracked_slot d base (n - 1) (n - 1 - i) b h)))))"
proof (induction j arbitrary: ta)
  case 0
  then show ?case by (simp add: search_resolve_loop_stop)
next
  case (Suc j)
  let ?T = "tracked_slot d base (n - 1) (n - Suc j)"
  let ?v = "concat (matrix_of B K (\<lambda>b h. raw_output d j ! (b * K + ?T b h)))"
  let ?tw = "ta\<lparr>slots := (slots ta)[j := Some ?v]\<rparr>"
  from Suc.prems have jn: "j < n" and jl: "j < length (slots ta)" and none: "slots ta ! j = None"
    by simp_all
  have Tb: "\<And>b h. b < B \<Longrightarrow> h < K \<Longrightarrow> ?T b h < K"
    using tracked_slot_bound[OF cr bo, of "n - Suc j"] by simp
  have ro: "resolve_output d B K j (nd_indices (matrix_of B K ?T)) ta = Inr ?tw"
    by (rule resolve_output_matrix[OF o jn Tb jl none])
  have Tb': "\<And>b h. b < B \<Longrightarrow> h < K \<Longrightarrow> ?T b h < beam_of base" using Tb bo by simp
  have rc: "resolve_choices d B K j base True (matrix_of B K ?T) ta =
      Inr (matrix_of B K (\<lambda>b h. parent_slot d j base b (?T b h)), if True then ?tw else ta) \<and>
      (\<forall>b<B. \<forall>h<K. parent_slot d j base b (?T b h) < K)"
  proof (rule resolve_choices_chain[OF cr jn Tb' refl])
    show "True \<longrightarrow> resolve_output d B K j (nd_indices (matrix_of B K ?T)) ta = Inr ?tw"
      using ro by simp
  qed
  have idx: "n - 1 - (n - Suc j) = j" "Suc (n - Suc j) = n - j" using jn by simp_all
  have nxt: "(\<lambda>b h. parent_slot d j base b (?T b h)) = tracked_slot d base (n - 1) (n - j)"
  proof (intro ext)
    fix b h
    have "tracked_slot d base (n - 1) (Suc (n - Suc j)) b h =
        parent_slot d (n - 1 - (n - Suc j)) base b (?T b h)" by simp
    then show "parent_slot d j base b (?T b h) = tracked_slot d base (n - 1) (n - j) b h"
      by (simp only: idx)
  qed
  have rc': "resolve_choices d B K j base True (matrix_of B K ?T) ta =
      Inr (matrix_of B K (tracked_slot d base (n - 1) (n - j)), ?tw)"
    using rc[THEN conjunct1] by (simp only: nxt if_True)
  have body: "search_resolve_body d B K base (int (Suc j) - 1, matrix_of B K ?T, ta) =
      Inr (int j - 1, matrix_of B K (tracked_slot d base (n - 1) (n - j)), ?tw)"
    using rc' by (simp add: search_resolve_body_def)
  have len: "length (slots ?tw) = n" using Suc.prems by simp
  have nn: "\<forall>i<j. slots ?tw ! i = None" using Suc.prems by simp
  from Suc.IH[OF _ len nn] jn obtain cbf ta' where
    l: "search_resolve_loop d B K base
        (int j - 1, matrix_of B K (tracked_slot d base (n - 1) (n - j)), ?tw) = Inr (- 1, cbf, ta')"
    and l1: "length (slots ta') = n" and l2: "\<forall>i<n. j \<le> i \<longrightarrow> slots ta' ! i = slots ?tw ! i"
    and l3: "\<forall>i<j. slots ta' ! i = Some (concat (matrix_of B K
          (\<lambda>b h. raw_output d i ! (b * K + tracked_slot d base (n - 1) (n - 1 - i) b h))))"
    by auto
  have "search_resolve_loop d B K base (int (Suc j) - 1, matrix_of B K ?T, ta) = Inr (- 1, cbf, ta')"
    using search_resolve_loop_step[OF _ body] l by simp
  moreover have "\<forall>i<n. Suc j \<le> i \<longrightarrow> slots ta' ! i = slots ta ! i"
    using l2 by simp
  moreover have "\<forall>i<Suc j. slots ta' ! i = Some (concat (matrix_of B K
          (\<lambda>b h. raw_output d i ! (b * K + tracked_slot d base (n - 1) (n - 1 - i) b h))))"
  proof (intro allI impI)
    fix i assume "i < Suc j"
    then consider "i < j" | "i = j" by linarith
    then show "slots ta' ! i = Some (concat (matrix_of B K
          (\<lambda>b h. raw_output d i ! (b * K + tracked_slot d base (n - 1) (n - 1 - i) b h))))"
    proof cases
      case 1
      with l3 show ?thesis by simp
    next
      case 2
      have "n - 1 - j = n - Suc j" by simp
      with l2 jn jl 2 show ?thesis by simp
    qed
  qed
  ultimately show ?case using l1 by blast
qed

text \<open>
  Claim C2, as amended. After a forward loop of \<open>n\<close> steps that has recorded the output of every
  step and, for every choice layer of the chain from the choice layer of the output to the
  previous time frame, the source beams of every step, the resolution pass succeeds and
  changes only the accumulated output. It starts at the last executed step \<open>n - 1\<close> with the
  final hypotheses themselves and walks down to step 0; the resolved output of step \<open>i\<close> for
  the final hypothesis \<open>h\<close> of example \<open>b\<close> is the raw output of step \<open>i\<close> at the slot that the
  lineage of the hypothesis occupies at step \<open>i\<close>: the slot \<open>h\<close> at the last step, and at an
  earlier step the recorded parent slot of the slot tracked at the step after it. So the
  output is re-indexed by the tracked slots, and the parent slots gathered at a step are the
  tracked slots of the step before.
\<close>

theorem search_resolve_follows_lineage:
  assumes cr: "chain_recorded d n B K base" and bo: "beam_of base = K"
    and o: "output_recorded d n (B * K)"
  shows "\<exists>d' out. search_resolve d B K (Some base) = Inr d' \<and> choice_tas d' = choice_tas d \<and>
      ta_stack (output_output d') = Inr out \<and> length out = n \<and>
      (\<forall>i<n. length (out ! i) = B * K \<and>
         (\<forall>b<B. \<forall>h<K.
            tracked_slot d base (n - 1) (n - 1 - i) b h < K \<and>
            out ! i ! (b * K + h) =
              raw_output d i ! (b * K + tracked_slot d base (n - 1) (n - 1 - i) b h)))"
proof -
  let ?v = "\<lambda>i. concat (matrix_of B K
          (\<lambda>b h. raw_output d i ! (b * K + tracked_slot d base (n - 1) (n - 1 - i) b h)))"
  obtain nm in_net choices where base: "base = LayerBase nm in_net choices" by (cases base)
  with cr obtain bs src where ch: "choices = Some (SearchChoices bs src)"
    by (cases choices) (auto split: base_choices.splits)
  from bo have bs: "bs = K" by (simp add: beam_of_def base ch)
  from o have sz: "ta_size (output_output d) = n" by (simp add: output_recorded_def ta_size_def)
  have "tracked_slot d base (n - 1) 0 b = (\<lambda>h. h)" for b by (rule ext) simp
  then have init: "expand_dims_unbroadcast [0..<K] B = matrix_of B K (tracked_slot d base (n - 1) (n - n))"
    by (simp add: expand_dims_unbroadcast_def matrix_of_def map_replicate_const)
  have t0: "length (slots (TensorArray n False :: 'a list tensor_array)) = n"
    "\<forall>i<n. slots (TensorArray n False :: 'a list tensor_array) ! i = None"
    by (simp_all add: TensorArray_def)
  from search_resolve_loop_ok[OF cr bo o le_refl t0] obtain cbf ta' where
    l: "search_resolve_loop d B K base
        (int n - 1, matrix_of B K (tracked_slot d base (n - 1) (n - n)), TensorArray n False) =
        Inr (- 1, cbf, ta')"
    and l1: "length (slots ta') = n" and l3: "\<forall>i<n. slots ta' ! i = Some (?v i)"
    by blast
  have sr: "search_resolve d B K (Some base) = Inr (d\<lparr>output_output := ta'\<rparr>)"
    using l by (simp add: search_resolve_def base ch bs assert_def sz init Let_def)
  have all: "list_all (\<lambda>s. s \<noteq> None) (slots ta')" using l1 l3 by (simp add: list_all_length)
  then have st: "ta_stack ta' = Inr (map the (slots ta'))" by (simp add: ta_stack_def)
  have nth: "map the (slots ta') ! i = ?v i" if "i < n" for i using that l1 l3 by simp
  have "\<forall>i<n. length (map the (slots ta') ! i) = B * K \<and>
         (\<forall>b<B. \<forall>h<K.
            tracked_slot d base (n - 1) (n - 1 - i) b h < K \<and>
            map the (slots ta') ! i ! (b * K + h) =
              raw_output d i ! (b * K + tracked_slot d base (n - 1) (n - 1 - i) b h))"
  proof (intro allI impI conjI)
    fix i assume i: "i < n"
    show "length (map the (slots ta') ! i) = B * K"
      by (simp only: nth[OF i] concat_matrix_of_length)
    fix b h assume b: "b < B" and h: "h < K"
    show "tracked_slot d base (n - 1) (n - 1 - i) b h < K"
      using tracked_slot_bound[OF cr bo _ b h, of "n - 1 - i"] by simp
    show "map the (slots ta') ! i ! (b * K + h) =
        raw_output d i ! (b * K + tracked_slot d base (n - 1) (n - 1 - i) b h)"
      by (simp only: nth[OF i] concat_matrix_of_nth[OF b h])
  qed
  with sr st l1 show ?thesis by (intro exI[of _ "d\<lparr>output_output := ta'\<rparr>"] exI[of _ "map the (slots ta')"]) simp
qed

lemma two_step_resolve:
  "search_resolve two_step_dict 1 2 (Some two_step_base) =
     Inr \<lparr>output_output = \<lparr>slots = [Some [11, 10], Some [20, 21]], dynamic_size = False\<rparr>,
          choice_tas = [(''choice_output'',
                         \<lparr>slots = [Some [[0, 0]], Some [[1, 0]]], dynamic_size = True\<rparr>)]\<rparr>"
  by (simp add: search_resolve_def two_step_dict_def two_step_base_def search_resolve_loop.simps
      search_resolve_body_def read_src_choice_beams_def resolve_output_def nd_indices_def
      gather_nd_def reshape_batch_beam_def rows_of_def reshape_rows_def ta_read_def ta_write_def
      lookup_def TensorArray_def ta_size_def expand_dims_unbroadcast_def assert_def bind_err_def
      Let_def numeral_2_eq_2)

theorem search_resolve_follows_lineage_witness:
  "chain_recorded two_step_dict 2 1 2 two_step_base \<and> beam_of two_step_base = 2 \<and>
   output_recorded two_step_dict 2 (1 * 2) \<and>
   search_resolve two_step_dict 1 2 (Some two_step_base) =
     Inr \<lparr>output_output = \<lparr>slots = [Some [11, 10], Some [20, 21]], dynamic_size = False\<rparr>,
          choice_tas = [(''choice_output'',
                         \<lparr>slots = [Some [[0, 0]], Some [[1, 0]]], dynamic_size = True\<rparr>)]\<rparr> \<and>
   tracked_slot two_step_dict two_step_base (2 - 1) (2 - 1 - 0) 0 0 = 1 \<and>
   raw_output two_step_dict 0 ! (0 * 2 + 1) = 11 \<and>
   tracked_slot two_step_dict two_step_base (2 - 1) (2 - 1 - 1) 0 0 = 0 \<and>
   raw_output two_step_dict 1 ! (0 * 2 + 0) = 20"
proof -
  have h1: "chain_recorded two_step_dict 2 1 2 two_step_base"
    by (simp add: two_step_dict_def two_step_base_def beams_recorded_def)
  have h2: "beam_of two_step_base = 2" by (simp add: beam_of_def two_step_base_def)
  have h3: "output_recorded two_step_dict 2 (1 * 2)"
    by (simp add: output_recorded_def two_step_dict_def)
  from search_resolve_follows_lineage[OF h1 h2 h3] obtain d' out where
    r: "search_resolve two_step_dict 1 2 (Some two_step_base) = Inr d'"
    and s: "ta_stack (output_output d') = Inr out"
    and a: "\<forall>i<2. length (out ! i) = 1 * 2 \<and>
         (\<forall>b<1. \<forall>h<2.
            tracked_slot two_step_dict two_step_base (2 - 1) (2 - 1 - i) b h < 2 \<and>
            out ! i ! (b * 2 + h) =
              raw_output two_step_dict i !
                (b * 2 + tracked_slot two_step_dict two_step_base (2 - 1) (2 - 1 - i) b h))"
    by (elim exE conjE) (rule that)
  from r two_step_resolve s have out: "out = [[11, 10], [20, 21]]"
    by (simp add: ta_stack_def)
  have t0: "tracked_slot two_step_dict two_step_base (2 - 1) (2 - 1 - 0) 0 0 = 1"
    by (simp add: two_step_dict_def two_step_base_def recorded_beams_def)
  have t1: "tracked_slot two_step_dict two_step_base (2 - 1) (2 - 1 - 1) 0 0 = 0" by simp
  have l0: "(0::nat) < 2" and l1: "(1::nat) < 2" and l2: "(0::nat) < 1" by simp_all
  from a[rule_format, OF l0, THEN conjunct2, rule_format, OF l2 l0, THEN conjunct2]
  have "raw_output two_step_dict 0 ! (0 * 2 + 1) = 11" by (simp only: t0 out) simp
  moreover from a[rule_format, OF l1, THEN conjunct2, rule_format, OF l2 l0, THEN conjunct2]
  have "raw_output two_step_dict 1 ! (0 * 2 + 0) = 20" by (simp only: t1 out) simp
  ultimately show ?thesis using h1 h2 h3 two_step_resolve t0 t1 by (intro conjI)
qed

text \<open>
  Claim C2 as stated fails for the index that re-indexes the output: the output of a step is
  gathered by the slots that the tracked hypotheses occupy at that step (at the last step the
  final hypotheses themselves), and the parent slots gathered at the step are used only for
  the step before. In the example the final hypothesis 0 has the value 20 at the last step and
  descends from slot 1; re-indexing the last step by the recorded parent slots, as the claim
  says, would give it the value 21, and 10 at step 0, where its lineage has the value 11.
\<close>

theorem output_is_not_gathered_by_parent_slots:
  "search_resolve two_step_dict 1 2 (Some two_step_base) =
     Inr \<lparr>output_output = \<lparr>slots = [Some [11, 10], Some [20, 21]], dynamic_size = False\<rparr>,
          choice_tas = [(''choice_output'',
                         \<lparr>slots = [Some [[0, 0]], Some [[1, 0]]], dynamic_size = True\<rparr>)]\<rparr> \<and>
   claimed_output two_step_dict two_step_base 2 1 0 0 0 = 21 \<and>
   claimed_output two_step_dict two_step_base 2 1 1 0 0 = 10"
proof -
  have "claimed_output two_step_dict two_step_base 2 1 0 0 0 = 21"
    "claimed_output two_step_dict two_step_base 2 1 1 0 0 = 10"
    by (simp_all add: claimed_output_def two_step_dict_def two_step_base_def recorded_beams_def
        raw_output_def)
  with two_step_resolve show ?thesis by simp
qed

end
